theory Spec2Isabelle
  imports Main "HOL-Library.Sublist" "HOL-Library.AList"
begin

section \<open>Values, tensors and errors\<close>

text \<open>
  An embedding is an array of shape \<open>[1, n, h]\<close>. The code only concatenates embeddings
  along the sequence axis and reads \<open>shape[1]\<close>, so a tensor is modelled by the list of its
  \<open>n\<close> positions, each position (a vector of \<open>h\<close> numbers) being an opaque label. All tensors
  share the hidden size of the model, so concatenation along axis 1 never fails on shapes.
\<close>

type_synonym tensor = "nat list"

text \<open>
  The Python values that occur as entry contents: \<open>None\<close>, a \<open>str\<close>, a PIL image handle, a
  list, a dict (insertion ordered), a numpy array, or any other object.
\<close>

datatype pyval =
    PNone
  | PStr string
  | PImage nat
  | PList "pyval list"
  | PDict "(string \<times> pyval) list"
  | PTensor tensor
  | PObj nat

text \<open>
  The exceptions of the code, by their Python class. \<open>RuntimeError\<close> carries the template
  name and the role of the message at line 276, \<open>RuntimeError_model\<close> is the
  \<open>RuntimeError\<close> of line 101 with the name of the model; the messages of \<open>ValueError\<close>
  are abridged. \<open>External\<close> is any failure raised by a collaborator (the model,
  \<open>replace_text\<close>).
\<close>

datatype error =
    RuntimeError string string
  | RuntimeError_model string
  | ValueError string
  | NameError string
  | AttributeError string
  | KeyError string
  | TypeError string
  | External nat

section \<open>String helpers of Python\<close>

definition MESSAGE :: string where
  "MESSAGE = ''${MESSAGE}''"

text \<open>\<open>s.endswith(exts)\<close> for a tuple \<open>exts\<close> of strings.\<close>

definition endswith1 :: "string \<Rightarrow> string \<Rightarrow> bool" where
  "endswith1 s e = (length e \<le> length s \<and> drop (length s - length e) s = e)"

definition endswith :: "string \<Rightarrow> string list \<Rightarrow> bool" where
  "endswith s exts = list_ex (endswith1 s) exts"

text \<open>\<open>s.split(sep)[0]\<close>: the part of \<open>s\<close> before the first occurrence of \<open>sep\<close>, all of
  \<open>s\<close> when \<open>sep\<close> does not occur (\<open>sep\<close> is not empty).\<close>

fun split_head :: "string \<Rightarrow> string \<Rightarrow> string" where
  "split_head sep [] = []"
| "split_head sep (c # cs) = (if prefix sep (c # cs) then [] else c # split_head sep cs)"

text \<open>\<open>s.find(sub)\<close>: the index of the first occurrence of \<open>sub\<close>, or \<open>-1\<close>.\<close>

fun find_str :: "string \<Rightarrow> string \<Rightarrow> int" where
  "find_str [] sub = (if sub = [] then 0 else - 1)"
| "find_str (c # cs) sub =
     (if prefix sub (c # cs) then 0
      else (let r = find_str cs sub in if r < 0 then - 1 else r + 1))"

text \<open>\<open>s[i:]\<close>: a negative \<open>i\<close> counts from the end, clamped at the start.\<close>

definition slice_from :: "string \<Rightarrow> int \<Rightarrow> string" where
  "slice_from s i = (if 0 \<le> i then drop (nat i) s else drop (length s - nat (- i)) s)"

text \<open>Truthiness of an optional string (\<open>if template:\<close>): neither \<open>None\<close> nor empty.\<close>

fun truthy :: "string option \<Rightarrow> bool" where
  "truthy None = False"
| "truthy (Some s) = (s \<noteq> [])"

section \<open>numpy\<close>

text \<open>
  \<open>np.concatenate(arrays, axis=1)\<close>: fails on an empty list (``need at least one array to
  concatenate'') and on a value that is not an array; array-like nested lists are not
  modelled.
\<close>

fun as_arrays :: "pyval list \<Rightarrow> tensor list option" where
  "as_arrays [] = Some []"
| "as_arrays (PTensor t # vs) = (case as_arrays vs of None \<Rightarrow> None | Some ts \<Rightarrow> Some (t # ts))"
| "as_arrays (v # vs) = None"

definition np_concatenate :: "pyval list \<Rightarrow> error + tensor" where
  "np_concatenate vs =
     (if vs = [] then Inl (ValueError ''need at least one array to concatenate'')
      else (case as_arrays vs of
              None \<Rightarrow> Inl (ValueError ''cannot concatenate a value that is not an array'')
            | Some ts \<Rightarrow> Inr (concat ts)))"

text \<open>\<open>v.shape[1]\<close>: only an array has a shape.\<close>

fun shape1 :: "pyval \<Rightarrow> error + nat" where
  "shape1 (PTensor t) = Inr (length t)"
| "shape1 v = Inl (AttributeError ''shape'')"

section \<open>Collaborators and the chat history object\<close>

text \<open>
  What the module takes from outside: the model's name and its two embedding calls, and from
  \<open>.utils\<close> the function \<open>replace_text\<close> and the tuple \<open>ImageExtensions\<close> (neither is part of
  the file, both are parameters here). Calls to \<open>logging\<close> and \<open>print_table\<close> only print and
  are left out.
\<close>

record externals =
  model_config_name :: string
  model_embed_text :: "pyval \<Rightarrow> bool \<Rightarrow> error + tensor"
  model_embed_image :: "pyval \<Rightarrow> error + tensor"
  replace_text :: "string \<Rightarrow> pyval \<Rightarrow> error + string"
  ImageExtensions :: "string list"

text \<open>
  An embedding function: one of the three methods registered by the constructor, or a
  function of the caller with one parameter (the input) or two (input and template).
\<close>

datatype efunc =
    EmbedText
  | EmbedDict
  | EmbedImage
  | Custom1 "pyval \<Rightarrow> error + tensor"
  | Custom2 "pyval \<Rightarrow> string option \<Rightarrow> error + tensor"

record embedding_function =
  func :: efunc
  uses_template :: bool

text \<open>
  A chat entry is an \<open>AttrDict\<close> built by \<open>create_entry\<close>: its first key is \<open>role\<close>, holding
  the role string, and the other keys follow in insertion order. The record keeps the role
  apart; \<open>entry_keys\<close> is the key order that iterating the dict gives.
\<close>

record entry =
  role :: string
  items :: "(string \<times> pyval) list"

definition entry_keys :: "entry \<Rightarrow> string list" where
  "entry_keys e = ''role'' # map fst (items e)"

definition entry_get :: "entry \<Rightarrow> string \<Rightarrow> pyval option" where
  "entry_get e k = (if k = ''role'' then Some (PStr (role e)) else map_of (items e) k)"

definition entry_has :: "entry \<Rightarrow> string \<Rightarrow> bool" where
  "entry_has e k = (entry_get e k \<noteq> None)"

text \<open>\<open>entry[k] = v\<close> for a key other than \<open>role\<close>: overwrite in place, or append.\<close>

definition entry_set :: "entry \<Rightarrow> string \<Rightarrow> pyval \<Rightarrow> entry" where
  "entry_set e k v = e\<lparr>items := AList.update k v (items e)\<rparr>"

text \<open>
  The object \<open>self\<close>. \<open>template\<close> is the template dict (role templates and the key
  \<open>system_prompt\<close> together, as in the code). \<open>template_name\<close> is the attribute read at line
  276: no method of the class assigns it, so it is absent (\<open>None\<close>) unless a caller sets it.
\<close>

record chat_history =
  ext :: externals
  template :: "(string \<times> string) list"
  embedding_functions :: "(string \<times> embedding_function) list"
  entries :: "entry list"
  kv_cache :: "nat option"
  template_name :: "string option"

section \<open>Content types and the embedding functions\<close>

text \<open>
  The names bound in the module: its imports, its two definitions and the variable of its
  loop over the templates. \<open>PIL\<close> is not among them, and \<open>embedding_type\<close> reads it for
  every input that is not a string.
\<close>

definition module_globals :: "string list" where
  "module_globals = [''os'', ''inspect'', ''logging'', ''np'', ''AttrDict'', ''replace_text'',
     ''print_table'', ''ImageExtensions'', ''ChatTemplates'', ''key'', ''ChatHistory'']"

fun is_str :: "pyval \<Rightarrow> bool" where
  "is_str (PStr s) = True"
| "is_str v = False"

fun is_pil_image :: "pyval \<Rightarrow> bool" where
  "is_pil_image (PImage i) = True"
| "is_pil_image v = False"

fun is_str_headed_list :: "pyval \<Rightarrow> bool" where
  "is_str_headed_list (PList (x # xs)) = is_str x"
| "is_str_headed_list v = False"

definition embedding_type :: "externals \<Rightarrow> pyval \<Rightarrow> error + string" where
  "embedding_type x input =
     (case input of
        PStr s \<Rightarrow> (if endswith s (ImageExtensions x) then Inr ''image'' else Inr ''text'')
      | _ \<Rightarrow>
         (if ''PIL'' \<notin> set module_globals then Inl (NameError ''PIL'')
          else if is_pil_image input then Inr ''image''
          else if is_str_headed_list input then Inr ''text''
          else Inl (ValueError ''could not find type of embedding, please specify the type'')))"

definition embed_text :: "externals \<Rightarrow> pyval \<Rightarrow> string option \<Rightarrow> bool \<Rightarrow> error + tensor" where
  "embed_text x text tmpl use_cache =
     (if truthy tmpl then
        (case replace_text x (the tmpl) text of
           Inl err \<Rightarrow> Inl err
         | Inr s \<Rightarrow> model_embed_text x (PStr s) use_cache)
      else model_embed_text x text use_cache)"

definition embed_image :: "externals \<Rightarrow> pyval \<Rightarrow> string option \<Rightarrow> error + tensor" where
  "embed_image x img tmpl =
     (case (if truthy tmpl then
              (case embed_text x (PStr (split_head MESSAGE (the tmpl))) None True of
                 Inl err \<Rightarrow> Inl err
               | Inr t \<Rightarrow> Inr [PTensor t])
            else Inr []) of
        Inl err \<Rightarrow> Inl err
      | Inr embeddings \<Rightarrow>
         (case model_embed_image x img of
            Inl err \<Rightarrow> Inl err
          | Inr ti \<Rightarrow>
             (case embed_text x (PStr [CHR 0x0A]) None True of
                Inl err \<Rightarrow> Inl err
              | Inr tn \<Rightarrow> np_concatenate (embeddings @ [PTensor ti, PTensor tn]))))"

text \<open>The end of \<open>embed_dict\<close>, after its loop.\<close>

definition embed_dict_result :: "tensor list \<Rightarrow> error + tensor" where
  "embed_dict_result embeddings =
     (if length embeddings = 0
      then Inl (ValueError ''dict did not contain any entries with valid embedding types'')
      else if length embeddings = 1 then Inr (hd embeddings)
      else np_concatenate (map PTensor embeddings))"

text \<open>
  \<open>embed\<close> dispatches on the type; \<open>embed_dict\<close> calls \<open>embed\<close> again on the values of the
  dict, so the two are defined together, \<open>embed_dict_loop\<close> being the loop of \<open>embed_dict\<close>.
  A registered function is called with the template only when \<open>uses_template\<close> is set; a
  caller's function called with the wrong number of arguments is a \<open>TypeError\<close>.
\<close>

fun embed :: "chat_history \<Rightarrow> pyval \<Rightarrow> string option \<Rightarrow> string option \<Rightarrow> error + tensor"
  and embed_dict_loop :: "chat_history \<Rightarrow> (string \<times> pyval) list \<Rightarrow> string option \<Rightarrow> error + tensor list"
where
  "embed h input ty tmpl =
     (case (if truthy ty then Inr (the ty) else embedding_type (ext h) input) of
        Inl err \<Rightarrow> Inl err
      | Inr ty' \<Rightarrow>
         (case map_of (embedding_functions h) ty' of
            None \<Rightarrow> Inl (ValueError ''type did not have an embedding registered'')
          | Some ef \<Rightarrow>
             (let targ = (if uses_template ef then tmpl else None) in
              case func ef of
                EmbedText \<Rightarrow> embed_text (ext h) input targ False
              | EmbedImage \<Rightarrow> embed_image (ext h) input targ
              | EmbedDict \<Rightarrow>
                 (case input of
                    PDict d \<Rightarrow>
                      (case embed_dict_loop h d targ of
                         Inl err \<Rightarrow> Inl err
                       | Inr embeddings \<Rightarrow> embed_dict_result embeddings)
                  | _ \<Rightarrow> Inl (AttributeError ''items''))
              | Custom1 g \<Rightarrow>
                 (if uses_template ef then Inl (TypeError ''too many arguments'') else g input)
              | Custom2 g \<Rightarrow>
                 (if uses_template ef then g input tmpl
                  else Inl (TypeError ''missing argument'')))))"
| "embed_dict_loop h [] tmpl = Inr []"
| "embed_dict_loop h ((key, v) # kvs) tmpl =
     (if v = PNone then embed_dict_loop h kvs tmpl
      else if map_of (embedding_functions h) key \<noteq> None then
        (case embed h v (Some key) tmpl of
           Inl err \<Rightarrow> Inl err
         | Inr t \<Rightarrow>
            (case embed_dict_loop h kvs tmpl of
               Inl err \<Rightarrow> Inl err
             | Inr ts \<Rightarrow> Inr (t # ts)))
      else embed_dict_loop h kvs tmpl)"

section \<open>The chat history store\<close>

text \<open>
  \<open>register_embedding\<close> reads the number of parameters of the function (for a bound method,
  without \<open>self\<close>): \<open>embed_text(text, template, use_cache)\<close>, \<open>embed_dict(dict, template)\<close>,
  \<open>embed_image(image, template)\<close>.
\<close>

fun num_params :: "efunc \<Rightarrow> nat" where
  "num_params EmbedText = 3"
| "num_params EmbedDict = 2"
| "num_params EmbedImage = 2"
| "num_params (Custom1 g) = 1"
| "num_params (Custom2 g) = 2"

definition register_embedding :: "string \<Rightarrow> efunc \<Rightarrow> chat_history \<Rightarrow> chat_history" where
  "register_embedding ty f h =
     h\<lparr>embedding_functions :=
         AList.update ty \<lparr>func = f, uses_template = (num_params f > 1)\<rparr> (embedding_functions h)\<rparr>"

text \<open>\<open>create_entry(role, input, **kwargs)\<close>; \<open>kwargs\<close> is the dict of the keyword arguments.\<close>

definition create_entry ::
  "chat_history \<Rightarrow> string \<Rightarrow> pyval \<Rightarrow> (string \<times> pyval) list \<Rightarrow> error + entry" where
  "create_entry h r input kwargs =
     (let e = \<lparr>role = r, items = kwargs\<rparr> in
      if input \<noteq> PNone then
        (case embedding_type (ext h) input of
           Inl err \<Rightarrow> Inl err
         | Inr ty \<Rightarrow> Inr (entry_set e ty input))
      else Inr e)"

definition add_entry ::
  "string \<Rightarrow> pyval \<Rightarrow> (string \<times> pyval) list \<Rightarrow> chat_history \<Rightarrow> chat_history \<times> (error + entry)" where
  "add_entry r input kwargs h =
     (case create_entry h r input kwargs of
        Inl err \<Rightarrow> (h, Inl err)
      | Inr e \<Rightarrow> (h\<lparr>entries := entries h @ [e]\<rparr>, Inr e))"

definition reset :: "bool \<Rightarrow> chat_history \<Rightarrow> chat_history \<times> (error + unit)" where
  "reset add_system_prompt h =
     (let h1 = h\<lparr>entries := [], kv_cache := None\<rparr> in
      if add_system_prompt then
        (case map_of (template h1) ''system_prompt'' of
           None \<Rightarrow> (h1, Inl (KeyError ''system_prompt''))
         | Some sp \<Rightarrow>
            (case add_entry ''system'' PNone [(''text'', PStr sp)] h1 of
               (h2, Inl err) \<Rightarrow> (h2, Inl err)
             | (h2, Inr e) \<Rightarrow> (h2, Inr ())))
      else (h1, Inr ()))"

text \<open>The property \<open>system_prompt\<close> and its setter.\<close>

definition system_prompt :: "chat_history \<Rightarrow> error + string" where
  "system_prompt h =
     (case map_of (template h) ''system_prompt'' of
        None \<Rightarrow> Inl (KeyError ''system_prompt'')
      | Some sp \<Rightarrow> Inr sp)"

definition set_system_prompt :: "string \<Rightarrow> chat_history \<Rightarrow> chat_history \<times> (error + unit)" where
  "set_system_prompt instruction h =
     reset True (h\<lparr>template := AList.update ''system_prompt'' instruction (template h)\<rparr>)"

section \<open>The templates and the constructor\<close>

definition NL :: string where
  "NL = [CHR 0x0A]"

definition vicuna_system_prompt :: string where
  "vicuna_system_prompt =
     ''A chat between a curious human and an artificial intelligence assistant. '' @
     ''The assistant gives helpful, detailed, and polite answers to the human'' @ [CHR 0x27] @
     ''s questions.''"

definition llama_2 :: "(string \<times> string) list" where
  "llama_2 =
     [(''system_prompt'', ''Answer the questions.''),
      (''system'', ''<s>[INST] <<SYS>>'' @ NL @ MESSAGE @ NL @ ''<</SYS>>'' @ NL @ NL),
      (''first'', MESSAGE @ '' [/INST]''),
      (''user'', ''<s>[INST] '' @ MESSAGE @ '' [/INST]''),
      (''bot'', '' '' @ MESSAGE)]"

definition vicuna_v0 :: "(string \<times> string) list" where
  "vicuna_v0 =
     [(''system_prompt'', vicuna_system_prompt),
      (''system'', MESSAGE @ NL @ NL),
      (''user'', ''### Human: '' @ MESSAGE @ NL),
      (''bot'', ''### Assistant: '' @ MESSAGE @ NL)]"

definition vicuna_v1 :: "(string \<times> string) list" where
  "vicuna_v1 =
     [(''system_prompt'', vicuna_system_prompt),
      (''system'', MESSAGE @ NL @ NL),
      (''user'', ''USER: '' @ MESSAGE @ NL),
      (''bot'', ''ASSISTANT: '' @ MESSAGE @ ''</s>'' @ NL)]"

text \<open>The dict \<open>ChatTemplates\<close> after lines 9 to 45, in the order of its keys.\<close>

definition ChatTemplates :: "(string \<times> (string \<times> string) list) list" where
  "ChatTemplates =
     [(''llama-2'', llama_2), (''vicuna-v0'', vicuna_v0), (''vicuna-v1'', vicuna_v1),
      (''llava-v0'', vicuna_v0), (''llava-v1'', vicuna_v1),
      (''llava-llama-2'',
         AList.update ''system_prompt''
           (''You are a helpful language and vision assistant. '' @
            ''You are able to understand the visual content that the user provides, '' @
            ''and assist the user with a variety of tasks using natural language.'')
           llama_2)]"

text \<open>\<open>str.lower\<close> on the letters A to Z; the names of models are ASCII.\<close>

definition lower_char :: "char \<Rightarrow> char" where
  "lower_char c =
     (let n = (of_char c :: nat) in if 65 \<le> n \<and> n \<le> 90 then char_of (n + 32) else c)"

definition lower :: "string \<Rightarrow> string" where
  "lower s = map lower_char s"

text \<open>Lines 84 to 101: the name of the template, from the name of the model.\<close>

definition detect_template :: "string \<Rightarrow> error + string" where
  "detect_template config_name =
     (let name = lower config_name in
      if sublist ''llama-2'' name then
        (if sublist ''llava'' name then Inr ''llava-llama-2'' else Inr ''llama-2'')
      else if sublist ''vicuna'' name then
        (if sublist ''v1'' name then Inr ''vicuna-v1'' else Inr ''vicuna-v0'')
      else if sublist ''llava'' name then
        (if sublist ''v1'' name then Inr ''llava-v1'' else Inr ''llava-v0'')
      else Inl (RuntimeError_model config_name))"

text \<open>
  The argument \<open>template\<close> of the constructor: \<open>None\<close>, the name of a template or a template
  dict. \<open>if not template:\<close> holds for \<open>None\<close>, for the empty string and for the empty dict.
\<close>

datatype template_arg = NoTemplate | TemplateName string | TemplateDict "(string \<times> string) list"

definition template_by_name :: "string \<Rightarrow> error + (string \<times> string) list" where
  "template_by_name n =
     (case map_of ChatTemplates n of None \<Rightarrow> Inl (KeyError n) | Some d \<Rightarrow> Inr d)"

definition detected_template :: "externals \<Rightarrow> error + (string \<times> string) list" where
  "detected_template x =
     (case detect_template (model_config_name x) of
        Inl err \<Rightarrow> Inl err
      | Inr n \<Rightarrow> template_by_name n)"

text \<open>Lines 83 to 108: the template dict that the constructor stores.\<close>

fun resolve_template :: "externals \<Rightarrow> template_arg \<Rightarrow> error + (string \<times> string) list" where
  "resolve_template x NoTemplate = detected_template x"
| "resolve_template x (TemplateName n) = (if n = [] then detected_template x else template_by_name n)"
| "resolve_template x (TemplateDict d) = (if d = [] then detected_template x else Inr d)"

text \<open>
  The constructor. An exception in it (no template for the model, an unknown name, a
  template dict without \<open>system_prompt\<close> in \<open>reset\<close>) leaves no object.
\<close>

definition init :: "externals \<Rightarrow> template_arg \<Rightarrow> string option \<Rightarrow> error + chat_history" where
  "init x tmpl sp =
     (case resolve_template x tmpl of
        Inl err \<Rightarrow> Inl err
      | Inr d \<Rightarrow>
         (let h0 = \<lparr>ext = x,
                    template = (if truthy sp then AList.update ''system_prompt'' (the sp) d else d),
                    embedding_functions = [], entries = [], kv_cache = None,
                    template_name = None\<rparr>;
              h1 = register_embedding ''text'' EmbedText h0;
              h2 = register_embedding ''dict'' EmbedDict h1;
              h3 = register_embedding ''image'' EmbedImage h2
          in case reset True h3 of
               (h4, Inl err) \<Rightarrow> Inl err
             | (h4, Inr u) \<Rightarrow> Inr h4))"

section \<open>The assembly pass\<close>

text \<open>The local variables of \<open>embed_chat\<close>; \<open>use_cache\<close> is its parameter, reassigned in the loop.\<close>

record loop_state =
  embeddings :: "pyval list"
  position :: nat
  num_user_prompts :: nat
  open_user_prompt :: bool
  use_cache :: bool

text \<open>Lines 272 to 280: the template of the segment.\<close>

definition role_template :: "chat_history \<Rightarrow> entry \<Rightarrow> loop_state \<Rightarrow> error + string \<times> loop_state" where
  "role_template h e st =
     (if map_of (template h) ''first'' \<noteq> None \<and> role e = ''user'' \<and> num_user_prompts st = 0
      then Inr (the (map_of (template h) ''first''), st)
      else
        (case map_of (template h) (role e) of
           None \<Rightarrow>
             (case template_name h of
                None \<Rightarrow> Inl (AttributeError ''template_name'')
              | Some n \<Rightarrow> Inl (RuntimeError n (role e)))
         | Some rt \<Rightarrow>
             (if open_user_prompt st
              then Inr (slice_from rt (find_str rt MESSAGE), st\<lparr>open_user_prompt := False\<rparr>)
              else Inr (rt, st))))"

text \<open>Lines 282 to 304: the cached embedding is counted or emitted, a missing one computed.\<close>

fun embed_segment ::
  "chat_history \<Rightarrow> string \<Rightarrow> pyval \<Rightarrow> string \<Rightarrow> entry \<times> loop_state \<Rightarrow> error + entry \<times> loop_state" where
  "embed_segment h key v rt (e, st) =
     (let embed_key = key @ ''_embedding'' in
      if use_cache st then
        (case entry_get e embed_key of
           None \<Rightarrow>
             (case embed h v (Some key) (Some rt) of
                Inl err \<Rightarrow> Inl err
              | Inr t \<Rightarrow>
                 (let e' = entry_set e embed_key (PTensor t) in
                  if role e \<noteq> ''bot'' then
                    Inr (e', st\<lparr>embeddings := embeddings st @ [PTensor t],
                                use_cache := False,
                                open_user_prompt := (key = ''image'' \<or> open_user_prompt st)\<rparr>)
                  else Inr (e', st\<lparr>position := position st + length t\<rparr>)))
         | Some c \<Rightarrow>
             (case shape1 c of
                Inl err \<Rightarrow> Inl err
              | Inr n \<Rightarrow> Inr (e, st\<lparr>position := position st + n\<rparr>)))
      else
        (case entry_get e embed_key of
           None \<Rightarrow>
             (case embed h v (Some key) (Some rt) of
                Inl err \<Rightarrow> Inl err
              | Inr t \<Rightarrow>
                 Inr (entry_set e embed_key (PTensor t),
                      st\<lparr>open_user_prompt := (key = ''image'' \<or> open_user_prompt st),
                         embeddings := embeddings st @ [PTensor t]\<rparr>))
         | Some c \<Rightarrow> Inr (e, st\<lparr>embeddings := embeddings st @ [c]\<rparr>)))"

text \<open>Lines 306 and 307.\<close>

definition count_user_prompt :: "entry \<Rightarrow> string \<Rightarrow> loop_state \<Rightarrow> loop_state" where
  "count_user_prompt e key st =
     (if role e = ''user'' \<and> key = ''text''
      then st\<lparr>num_user_prompts := num_user_prompts st + 1\<rparr> else st)"

text \<open>The body of the inner loop, for one key of the entry.\<close>

fun embed_chat_key ::
  "chat_history \<Rightarrow> string \<Rightarrow> entry \<times> loop_state \<Rightarrow> error + entry \<times> loop_state" where
  "embed_chat_key h key (e, st) =
     (if map_of (embedding_functions h) key = None then Inr (e, st)
      else
        (case entry_get e key of
           None \<Rightarrow> Inl (KeyError key)
         | Some v \<Rightarrow>
            (if v = PNone then Inr (e, st)
             else
               (case role_template h e st of
                  Inl err \<Rightarrow> Inl err
                | Inr (rt, st1) \<Rightarrow>
                   (case embed_segment h key v rt (e, st1) of
                      Inl err \<Rightarrow> Inl err
                    | Inr (e', st2) \<Rightarrow> Inr (e', count_user_prompt e' key st2))))))"

text \<open>
  The inner loop over the keys of a copy of the entry, and the outer loop over the entries.
  An exception leaves the loops at once; what was stored on the entries before stays there,
  so both return the entries as they are then.
\<close>

fun embed_chat_keys ::
  "chat_history \<Rightarrow> string list \<Rightarrow> entry \<times> loop_state \<Rightarrow> entry \<times> (error + loop_state)" where
  "embed_chat_keys h [] (e, st) = (e, Inr st)"
| "embed_chat_keys h (key # keys) (e, st) =
     (case embed_chat_key h key (e, st) of
        Inl err \<Rightarrow> (e, Inl err)
      | Inr (e', st') \<Rightarrow> embed_chat_keys h keys (e', st'))"

fun embed_chat_entries ::
  "chat_history \<Rightarrow> entry list \<Rightarrow> loop_state \<Rightarrow> entry list \<times> (error + loop_state)" where
  "embed_chat_entries h [] st = ([], Inr st)"
| "embed_chat_entries h (e # es) st =
     (case embed_chat_keys h (entry_keys e) (e, st) of
        (e', Inl err) \<Rightarrow> (e' # es, Inl err)
      | (e', Inr st') \<Rightarrow>
         (case embed_chat_entries h es st' of (es', r) \<Rightarrow> (e' # es', r)))"

definition initial_state :: "bool \<Rightarrow> loop_state" where
  "initial_state uc =
     \<lparr>embeddings = [], position = 0, num_user_prompts = 0, open_user_prompt = False,
      use_cache = uc\<rparr>"

definition embed_chat :: "bool \<Rightarrow> chat_history \<Rightarrow> chat_history \<times> (error + tensor \<times> nat)" where
  "embed_chat uc h =
     (case embed_chat_entries h (entries h) (initial_state uc) of
        (es', Inl err) \<Rightarrow> (h\<lparr>entries := es'\<rparr>, Inl err)
      | (es', Inr st) \<Rightarrow>
         (h\<lparr>entries := es'\<rparr>,
          case np_concatenate (embeddings st) of
            Inl err \<Rightarrow> Inl err
          | Inr t \<Rightarrow> Inr (t, position st)))"

section \<open>Notions used to state the properties\<close>

text \<open>
  A key of an entry is a segment of the assembly pass when it has a registered embedding
  function and a value other than \<open>None\<close> (line 269).
\<close>

definition embeddable :: "chat_history \<Rightarrow> entry \<Rightarrow> string \<Rightarrow> bool" where
  "embeddable h e k =
     (map_of (embedding_functions h) k \<noteq> None \<and> entry_get e k \<noteq> None \<and> entry_get e k \<noteq> Some PNone)"

definition segments :: "chat_history \<Rightarrow> entry \<Rightarrow> string list" where
  "segments h e = filter (embeddable h e) (entry_keys e)"

text \<open>The embedding cached on an entry for a key, as a list of at most one value.\<close>

definition cached :: "entry \<Rightarrow> string \<Rightarrow> pyval list" where
  "cached e k = (case entry_get e (k @ ''_embedding'') of None \<Rightarrow> [] | Some c \<Rightarrow> [c])"

text \<open>\<open>e'\<close> keeps every key of \<open>e\<close> with its value (and so its role).\<close>

definition keeps :: "entry \<Rightarrow> entry \<Rightarrow> bool" where
  "keeps e e' = (\<forall>k v. entry_get e k = Some v \<longrightarrow> entry_get e' k = Some v)"

fun is_tensor :: "pyval \<Rightarrow> bool" where
  "is_tensor (PTensor t) = True"
| "is_tensor v = False"

text \<open>The sequence length of a value, and of a list of values (0 for what is not an array).\<close>

fun vlen :: "pyval \<Rightarrow> nat" where
  "vlen (PTensor t) = length t"
| "vlen v = 0"

definition total_len :: "pyval list \<Rightarrow> nat" where
  "total_len vs = sum_list (map vlen vs)"

text \<open>The text segments of user entries among the keys \<open>ks\<close> of an entry, and in a list of
  entries: what \<open>num_user_prompts\<close> counts.\<close>

definition user_text_keys :: "chat_history \<Rightarrow> entry \<Rightarrow> string list \<Rightarrow> nat" where
  "user_text_keys h e ks =
     (if role e = ''user'' then length (filter (\<lambda>k. k = ''text'' \<and> embeddable h e k) ks) else 0)"

definition user_texts :: "chat_history \<Rightarrow> entry list \<Rightarrow> nat" where
  "user_texts h es = sum_list (map (\<lambda>e. user_text_keys h e (entry_keys e)) es)"

text \<open>
  The cached embeddings of the segments of the entries \<open>es\<close>, in the order of the pass, read
  from the entries \<open>es'\<close> as they are after it.
\<close>

definition emitted :: "chat_history \<Rightarrow> entry list \<Rightarrow> entry list \<Rightarrow> pyval list" where
  "emitted h es es' =
     concat (map (\<lambda>(e, e'). concat (map (cached e') (segments h e))) (zip es es'))"

text \<open>The keys of \<open>e'\<close> are those of \<open>e\<close>, then keys of cached embeddings.\<close>

definition new_keys_ok :: "chat_history \<Rightarrow> entry \<Rightarrow> entry \<Rightarrow> bool" where
  "new_keys_ok h e e' = (\<exists>new. entry_keys e' = entry_keys e @ new \<and>
      (\<forall>k'\<in>set new. \<exists>k. map_of (embedding_functions h) k \<noteq> None \<and> k' = k @ ''_embedding''))"

text \<open>
  After a pass, the cached embedding of the key \<open>k\<close> on \<open>e'\<close> is the one that \<open>e\<close> held before
  it or, where \<open>e\<close> held none, what the dispatcher returns for the content of \<open>k\<close> under a
  template that the pass selects for \<open>e\<close>.
\<close>

definition kept_or_computed :: "chat_history \<Rightarrow> entry \<Rightarrow> entry \<Rightarrow> string \<Rightarrow> bool" where
  "kept_or_computed h e e' k =
     (case entry_get e (k @ ''_embedding'') of
        Some c \<Rightarrow> entry_get e' (k @ ''_embedding'') = Some c
      | None \<Rightarrow>
         (\<exists>v rt st0 st1 t. entry_get e k = Some v \<and> role_template h e st0 = Inr (rt, st1) \<and>
            embed h v (Some k) (Some rt) = Inr t \<and>
            entry_get e' (k @ ''_embedding'') = Some (PTensor t)))"

text \<open>
  What a pass without the cache needs on the keys \<open>ks\<close> of an entry to go through: a template
  for the role of an entry that has a segment, and a dispatcher that embeds every segment
  without cached embedding.
\<close>

definition ready :: "chat_history \<Rightarrow> entry \<Rightarrow> string list \<Rightarrow> bool" where
  "ready h e ks =
     (\<forall>k\<in>set ks. embeddable h e k \<longrightarrow>
        map_of (template h) (role e) \<noteq> None \<and>
        (entry_get e (k @ ''_embedding'') = None \<longrightarrow>
           (\<forall>v rt. entry_get e k = Some v \<longrightarrow> \<not> isl (embed h v (Some k) (Some rt)))))"

section \<open>A sample model and sample histories\<close>

text \<open>
  A model that embeds a string as the codes of its characters and an image as two positions,
  a \<open>replace_text\<close> that fills the placeholder, and a template set with a \<open>first\<close> role.
\<close>

fun sample_embed_text :: "pyval \<Rightarrow> bool \<Rightarrow> error + tensor" where
  "sample_embed_text (PStr s) uc = Inr (map of_char s)"
| "sample_embed_text v uc = Inl (External 1)"

fun sample_embed_image :: "pyval \<Rightarrow> error + tensor" where
  "sample_embed_image (PImage i) = Inr [1000 + i, 2000 + i]"
| "sample_embed_image v = Inl (External 2)"

fun sample_replace_text :: "string \<Rightarrow> pyval \<Rightarrow> error + string" where
  "sample_replace_text t (PStr m) =
     (let i = find_str t MESSAGE in
      if i < 0 then Inr t else Inr (take (nat i) t @ m @ drop (nat i + length MESSAGE) t))"
| "sample_replace_text t v = Inl (External 3)"

definition sample_ext :: externals where
  "sample_ext =
     \<lparr>model_config_name = ''sample'',
      model_embed_text = sample_embed_text, model_embed_image = sample_embed_image,
      replace_text = sample_replace_text, ImageExtensions = [''.png'', ''.jpg'']\<rparr>"

definition sample_template :: "(string \<times> string) list" where
  "sample_template =
     [(''system_prompt'', ''Hi''), (''system'', ''<<'' @ MESSAGE @ ''>>''),
      (''first'', MESSAGE @ ''/''), (''user'', ''[I]'' @ MESSAGE @ ''/''),
      (''bot'', '' '' @ MESSAGE)]"

text \<open>The history that the constructor returns for the sample model and template.\<close>

definition sample_history :: chat_history where
  "sample_history = projr (init sample_ext (TemplateDict sample_template) None)"

text \<open>A bot entry whose text already has its cached embedding, before a new user entry.\<close>

definition sample_bot_entry :: entry where
  "sample_bot_entry =
     \<lparr>role = ''bot'', items = [(''text'', PStr ''ok''), (''text_embedding'', PTensor [32, 111, 107])]\<rparr>"

definition bot_then_user_history :: chat_history where
  "bot_then_user_history =
     sample_history\<lparr>entries := [sample_bot_entry, \<lparr>role = ''user'', items = [(''text'', PStr ''q'')]\<rparr>]\<rparr>"

text \<open>\<open>add_entry('user', 'q', image=...)\<close> on the new history: a user entry with an image, then
  a text.\<close>

definition sample_image_history :: chat_history where
  "sample_image_history = fst (add_entry ''user'' (PStr ''q'') [(''image'', PImage 1)] sample_history)"

text \<open>The new history after a first assembly, and then an entry of a role without template,
  with a text and without any content.\<close>

definition sample_cached_history :: chat_history where
  "sample_cached_history = fst (embed_chat True sample_history)"

definition sample_assistant_history :: chat_history where
  "sample_assistant_history = fst (add_entry ''assistant'' (PStr ''hi'') [] sample_cached_history)"

definition sample_roleonly_history :: chat_history where
  "sample_roleonly_history = fst (add_entry ''assistant'' PNone [] sample_history)"


text \<open>The new history after a first assembly, then the answer of the bot and the next turn
  of the user: a cached segment, and two segments without cached embedding.\<close>

definition sample_turn_history :: chat_history where
  "sample_turn_history =
     fst (add_entry ''user'' (PStr ''q'') []
       (fst (add_entry ''bot'' (PStr ''ok'') [] sample_cached_history)))"

text \<open>\<open>reset(add_system_prompt=False)\<close>: a history without entries.\<close>

definition sample_empty_history :: chat_history where
  "sample_empty_history = fst (reset False sample_history)"


section \<open>Content types and the image embedding\<close>

text \<open>
  Claim C7. \<open>embedding_type\<close> evaluated on a list holding one string: the test
  \<open>isinstance(input, PIL.Image.Image)\<close> comes before the test for lists, \<open>PIL\<close> is not bound in
  the module, and the call ends in a \<open>NameError\<close>; it returns neither \<open>text\<close> nor the
  \<open>ValueError\<close> that asks for an explicit type.
\<close>

theorem embedding_type_list_of_str:
  "embedding_type x (PList [PStr ''hello'']) = Inl (NameError ''PIL'')"
  by (simp add: embedding_type_def module_globals_def)

text \<open>What \<open>embedding_type\<close> returns for a string, and for everything else.\<close>

lemma embedding_type_str:
  "embedding_type x (PStr s) = Inr (if endswith s (ImageExtensions x) then ''image'' else ''text'')"
  by (simp add: embedding_type_def)

lemma embedding_type_not_str:
  "\<not> is_str v \<Longrightarrow> embedding_type x v = Inl (NameError ''PIL'')"
  by (cases v) (simp_all add: embedding_type_def module_globals_def)

lemma prefix_append_short:
  "prefix xs (ys @ zs) \<Longrightarrow> length xs \<le> length ys \<Longrightarrow> prefix xs ys"
  by (auto simp: prefix_append)

lemma split_head_first:
  "sep \<noteq> [] \<Longrightarrow> \<not> sublist sep (pre @ butlast sep) \<Longrightarrow> split_head sep (pre @ sep @ post) = pre"
proof (induction pre)
  case Nil
  then obtain c cs where "sep = c # cs" by (cases sep) auto
  then show ?case by simp
next
  case (Cons c cs)
  have no: "\<not> prefix sep ((c # cs) @ butlast sep)"
    using Cons.prems(2) by (auto simp: sublist_Cons_right)
  have "\<not> prefix sep ((c # cs) @ sep @ post)"
  proof
    assume p: "prefix sep ((c # cs) @ sep @ post)"
    have "(c # cs) @ sep @ post = ((c # cs) @ butlast sep) @ ([last sep] @ post)"
      using Cons.prems(1) by simp
    with p have "prefix sep (((c # cs) @ butlast sep) @ ([last sep] @ post))" by metis
    moreover have "length sep \<le> length ((c # cs) @ butlast sep)" by simp
    ultimately have "prefix sep ((c # cs) @ butlast sep)" by (rule prefix_append_short)
    with no show False by simp
  qed
  moreover have "\<not> sublist sep (cs @ butlast sep)"
    using Cons.prems(2) by (auto simp: sublist_Cons_right)
  ultimately show ?case using Cons.IH Cons.prems(1) by simp
qed

text \<open>
  Claim C6. When the model embeds the image to \<open>ti\<close> and a newline to \<open>tn\<close>, the image
  embedding without template is \<open>ti @ tn\<close>; with a template (a non-empty string, which is what
  \<open>if template:\<close> accepts) whose part before the first placeholder embeds to \<open>tp\<close>, it is
  \<open>tp @ ti @ tn\<close>. The part before the placeholder, \<open>split_head\<close>, is \<open>pre\<close> for a template
  \<open>pre @ MESSAGE @ post\<close> in which the placeholder does not occur earlier.
\<close>

theorem embed_image_concat:
  assumes "model_embed_image x img = Inr ti"
    and "embed_text x (PStr [CHR 0x0A]) None True = Inr tn"
  shows "embed_image x img None = Inr (ti @ tn) \<and>
     (\<forall>tmpl tp. tmpl \<noteq> [] \<longrightarrow> embed_text x (PStr (split_head MESSAGE tmpl)) None True = Inr tp \<longrightarrow>
        embed_image x img (Some tmpl) = Inr (tp @ ti @ tn)) \<and>
     (\<forall>pre post. \<not> sublist MESSAGE (pre @ butlast MESSAGE) \<longrightarrow>
        split_head MESSAGE (pre @ MESSAGE @ post) = pre)"
proof (intro conjI allI impI)
  show "embed_image x img None = Inr (ti @ tn)"
    using assms by (simp add: embed_image_def np_concatenate_def)
next
  fix tmpl tp
  assume "tmpl \<noteq> []" and "embed_text x (PStr (split_head MESSAGE tmpl)) None True = Inr tp"
  then show "embed_image x img (Some tmpl) = Inr (tp @ ti @ tn)"
    using assms by (simp add: embed_image_def np_concatenate_def)
next
  fix pre post
  assume "\<not> sublist MESSAGE (pre @ butlast MESSAGE)"
  then show "split_head MESSAGE (pre @ MESSAGE @ post) = pre"
    by (intro split_head_first) (simp_all add: MESSAGE_def)
qed

text \<open>
  Witness of C6: the sample model, an image, no template and the sample user template.
\<close>

theorem embed_image_concat_witness:
  "embed_image sample_ext (PImage 1) None = Inr [1001, 2001, 10] \<and>
   embed_image sample_ext (PImage 1) (Some (''[I]'' @ MESSAGE @ ''/'')) = Inr [91, 73, 93, 1001, 2001, 10] \<and>
   split_head MESSAGE (''[I]'' @ MESSAGE @ ''/'') = ''[I]''"
proof -
  have a: "model_embed_image sample_ext (PImage 1) = Inr [1001, 2001]"
    by (simp add: sample_ext_def)
  have b: "embed_text sample_ext (PStr [CHR 0x0A]) None True = Inr [10]"
    by (simp add: sample_ext_def embed_text_def)
  have c: "embed_text sample_ext (PStr (split_head MESSAGE (''[I]'' @ MESSAGE @ ''/''))) None True = Inr [91, 73, 93]"
    by (simp add: sample_ext_def embed_text_def MESSAGE_def)
  have d: "\<not> sublist MESSAGE (''[I]'' @ butlast MESSAGE)"
    by (simp add: MESSAGE_def sublist_Cons_right)
  have e: "''[I]'' @ MESSAGE @ ''/'' \<noteq> []" by simp
  from embed_image_concat [OF a b] c d e show ?thesis
    by (metis append_Cons append_Nil)
qed

section \<open>Entries only gain keys; skipped keys and cache hits\<close>

lemma entry_get_entry_set:
  "entry_get (entry_set e k v) k' =
     (if k' = ''role'' then Some (PStr (role e)) else if k' = k then Some v else map_of (items e) k')"
  by (simp add: entry_get_def entry_set_def update_conv')

lemma role_entry_set [simp]: "role (entry_set e k v) = role e"
  by (simp add: entry_set_def)

lemma keeps_refl [simp]: "keeps e e"
  by (simp add: keeps_def)

lemma keeps_trans: "keeps e1 e2 \<Longrightarrow> keeps e2 e3 \<Longrightarrow> keeps e1 e3"
  by (simp add: keeps_def)

lemma keeps_role:
  assumes "keeps e e'"
  shows "role e' = role e"
proof -
  have "entry_get e ''role'' = Some (PStr (role e))" by (simp add: entry_get_def)
  with assms have "entry_get e' ''role'' = Some (PStr (role e))" by (simp add: keeps_def)
  then show ?thesis by (simp add: entry_get_def)
qed

lemma keeps_get: "keeps e e' \<Longrightarrow> entry_get e k = Some v \<Longrightarrow> entry_get e' k = Some v"
  by (simp add: keeps_def)

lemma keeps_entry_set:
  assumes "entry_get e k = None"
  shows "keeps e (entry_set e k v)"
  unfolding keeps_def
proof (intro allI impI)
  fix k' v'
  assume g: "entry_get e k' = Some v'"
  with assms have "k' \<noteq> k" by auto
  with g show "entry_get (entry_set e k v) k' = Some v'"
    by (auto simp: entry_get_def entry_set_def update_conv' split: if_splits)
qed

lemma embed_segment_keeps:
  "embed_segment h key v rt (e, st) = Inr (e', st') \<Longrightarrow> keeps e e'"
  by (auto simp: Let_def keeps_entry_set split: if_splits option.splits sum.splits)

declare embed_segment.simps [simp del]

lemma embed_chat_key_keeps:
  "embed_chat_key h key (e, st) = Inr (e', st') \<Longrightarrow> keeps e e'"
  by (auto split: if_splits option.splits sum.splits dest: embed_segment_keeps)

declare embed_chat_key.simps [simp del]

lemma embed_chat_keys_keeps:
  "embed_chat_keys h ks (e, st) = (e', r) \<Longrightarrow> keeps e e'"
proof (induction ks arbitrary: e st)
  case Nil
  then show ?case by simp
next
  case (Cons k ks)
  show ?case
  proof (cases "embed_chat_key h k (e, st)")
    case (Inl err)
    with Cons.prems show ?thesis by simp
  next
    case (Inr p)
    obtain e1 st1 where p: "p = (e1, st1)" by (cases p)
    from Inr p Cons.prems have "embed_chat_keys h ks (e1, st1) = (e', r)" by simp
    then have "keeps e1 e'" by (rule Cons.IH)
    moreover from Inr p have "keeps e e1" by (auto dest: embed_chat_key_keeps)
    ultimately show ?thesis by (blast intro: keeps_trans)
  qed
qed

lemma embed_chat_entries_keeps:
  "embed_chat_entries h es st = (es', r) \<Longrightarrow> list_all2 keeps es es'"
proof (induction es arbitrary: st es' r)
  case Nil
  then show ?case by simp
next
  case (Cons e es)
  obtain e1 r1 where k: "embed_chat_keys h (entry_keys e) (e, st) = (e1, r1)"
    by (cases "embed_chat_keys h (entry_keys e) (e, st)")
  then have ke: "keeps e e1" by (rule embed_chat_keys_keeps)
  show ?case
  proof (cases r1)
    case (Inl err)
    with k Cons.prems have "es' = e1 # es" by simp
    with ke show ?thesis by (simp add: list_all2_refl)
  next
    case (Inr st1)
    obtain es1 r2 where r: "embed_chat_entries h es st1 = (es1, r2)"
      by (cases "embed_chat_entries h es st1")
    with k Inr Cons.prems have "es' = e1 # es1" by simp
    moreover from r have "list_all2 keeps es es1" by (rule Cons.IH)
    ultimately show ?thesis using ke by simp
  qed
qed

lemma embed_chat_key_skip:
  "map_of (embedding_functions h) key = None \<or> entry_get e key = Some PNone \<Longrightarrow>
   embed_chat_key h key (e, st) = Inr (e, st)"
  by (auto simp: embed_chat_key.simps)

lemma embed_chat_keys_append:
  "embed_chat_keys h (ks1 @ ks2) (e, st) =
     (case embed_chat_keys h ks1 (e, st) of
        (e1, Inl err) \<Rightarrow> (e1, Inl err)
      | (e1, Inr st1) \<Rightarrow> embed_chat_keys h ks2 (e1, st1))"
  by (induction ks1 arbitrary: e st) (auto split: sum.splits)


text \<open>
  Claim C1, amended. During a pass that still uses the cache, a segment whose entry already
  holds its cached embedding \<open>t\<close> is not emitted again: the entry is left as it is, the list of
  emitted embeddings is unchanged, the cache stays in use, and the length of \<open>t\<close> is added to
  the position, whatever the role of the entry, \<open>bot\<close> included.
\<close>

theorem cache_hit_advances_position:
  assumes "use_cache st"
    and "map_of (embedding_functions h) key \<noteq> None"
    and "entry_get e key = Some v" and "v \<noteq> PNone"
    and "entry_get e (key @ ''_embedding'') = Some (PTensor t)"
    and "role_template h e st = Inr (rt, st1)"
  shows "embed_chat_key h key (e, st) =
           Inr (e, count_user_prompt e key (st1\<lparr>position := position st + length t\<rparr>)) \<and>
         embeddings (count_user_prompt e key (st1\<lparr>position := position st + length t\<rparr>)) = embeddings st \<and>
         use_cache (count_user_prompt e key (st1\<lparr>position := position st + length t\<rparr>))"
proof -
  from assms(6) have s: "use_cache st1 = use_cache st" "position st1 = position st"
      "embeddings st1 = embeddings st"
    by (auto simp: role_template_def split: if_splits option.splits)
  with assms show ?thesis
    by (auto simp: embed_chat_key.simps embed_segment.simps count_user_prompt_def)
qed

section \<open>Failures of the assembly\<close>

declare embed.simps [simp del]

text \<open>
  Claim C9. When an assembly fails, the history has as many entries as before, and every
  cached embedding that an entry held before the call is still on that entry, unchanged.
\<close>

theorem failed_assembly_keeps_cached:
  assumes "embed_chat uc h = (h', Inl err)"
  shows "length (entries h') = length (entries h) \<and>
         (\<forall>i<length (entries h). \<forall>k c.
            entry_get (entries h ! i) (k @ ''_embedding'') = Some c \<longrightarrow>
            entry_get (entries h' ! i) (k @ ''_embedding'') = Some c)"
proof -
  obtain es' r where l: "embed_chat_entries h (entries h) (initial_state uc) = (es', r)"
    by (cases "embed_chat_entries h (entries h) (initial_state uc)")
  with assms have "entries h' = es'"
    by (auto simp: embed_chat_def split: sum.splits)
  moreover from l have "list_all2 keeps (entries h) es'" by (rule embed_chat_entries_keeps)
  ultimately have "list_all2 keeps (entries h) (entries h')" by simp
  then show ?thesis
    by (auto simp: list_all2_conv_all_nth keeps_def)
qed

lemma role_template_missing:
  assumes "map_of (template h) (role e) = None"
    and "\<not> (map_of (template h) ''first'' \<noteq> None \<and> role e = ''user'')"
  shows "isl (role_template h e st)"
  using assms by (auto simp: role_template_def split: option.splits)

lemma entry_get_entry_set':
  "entry_get (entry_set e k v) k' = (if k' = k \<and> k' \<noteq> ''role'' then Some v else entry_get e k')"
  by (simp add: entry_get_def entry_set_def update_conv')

lemma embed_segment_not_none:
  assumes "embed_segment h key v rt (e, st) = Inr (e', st')" and "entry_get e k \<noteq> Some PNone"
  shows "entry_get e' k \<noteq> Some PNone"
  using assms
  by (auto simp: embed_segment.simps Let_def entry_get_entry_set'
      split: if_splits option.splits sum.splits)

lemma embed_chat_key_not_none:
  assumes "embed_chat_key h key (e, st) = Inr (e', st')" and "entry_get e k \<noteq> Some PNone"
  shows "entry_get e' k \<noteq> Some PNone"
  using assms
  by (auto simp: embed_chat_key.simps split: if_splits option.splits sum.splits
      dest: embed_segment_not_none)

lemma embed_chat_key_missing_role:
  assumes "map_of (embedding_functions h) k \<noteq> None"
    and "entry_get e k \<noteq> Some PNone"
    and "map_of (template h) (role e) = None"
    and "\<not> (map_of (template h) ''first'' \<noteq> None \<and> role e = ''user'')"
  shows "isl (embed_chat_key h k (e, st))"
proof -
  from assms(3,4) have "isl (role_template h e st)" by (rule role_template_missing)
  then obtain err where "role_template h e st = Inl err" by (cases "role_template h e st") auto
  with assms(1,2) show ?thesis
    by (auto simp: embed_chat_key.simps split: option.splits)
qed

lemma embed_chat_keys_missing_role:
  assumes "k \<in> set ks" and "map_of (embedding_functions h) k \<noteq> None"
    and "entry_get e k \<noteq> Some PNone"
    and "map_of (template h) (role e) = None"
    and "\<not> (map_of (template h) ''first'' \<noteq> None \<and> role e = ''user'')"
  shows "isl (snd (embed_chat_keys h ks (e, st)))"
  using assms
proof (induction ks arbitrary: e st)
  case Nil
  then show ?case by simp
next
  case (Cons key ks)
  show ?case
  proof (cases "embed_chat_key h key (e, st)")
    case (Inl err)
    then show ?thesis by simp
  next
    case (Inr p)
    obtain e1 st1 where p: "p = (e1, st1)" by (cases p)
    have "key \<noteq> k"
    proof
      assume "key = k"
      with Cons.prems have "isl (embed_chat_key h key (e, st))"
        by (auto intro: embed_chat_key_missing_role)
      with Inr show False by simp
    qed
    with Cons.prems have "k \<in> set ks" by simp
    moreover from Inr p have "entry_get e1 k \<noteq> Some PNone"
      using Cons.prems(3) by (auto dest: embed_chat_key_not_none)
    moreover from Inr p have "role e1 = role e"
      by (auto dest: embed_chat_key_keeps keeps_role)
    ultimately have "isl (snd (embed_chat_keys h ks (e1, st1)))"
      using Cons.prems by (intro Cons.IH) auto
    with Inr p show ?thesis by simp
  qed
qed

lemma embed_chat_entries_missing_role:
  assumes "e \<in> set es" and "k \<in> set (entry_keys e)"
    and "map_of (embedding_functions h) k \<noteq> None"
    and "entry_get e k \<noteq> Some PNone"
    and "map_of (template h) (role e) = None"
    and "\<not> (map_of (template h) ''first'' \<noteq> None \<and> role e = ''user'')"
  shows "isl (snd (embed_chat_entries h es st))"
  using assms(1)
proof (induction es arbitrary: st)
  case Nil
  then show ?case by simp
next
  case (Cons e0 es)
  obtain e1 r1 where k: "embed_chat_keys h (entry_keys e0) (e0, st) = (e1, r1)"
    by (cases "embed_chat_keys h (entry_keys e0) (e0, st)")
  show ?case
  proof (cases r1)
    case (Inl err)
    with k show ?thesis by simp
  next
    case (Inr st1)
    have "e0 \<noteq> e"
    proof
      assume "e0 = e"
      with assms have "isl (snd (embed_chat_keys h (entry_keys e0) (e0, st)))"
        by (auto intro: embed_chat_keys_missing_role)
      with k Inr show False by simp
    qed
    with Cons.prems have "e \<in> set es" by auto
    then have "isl (snd (embed_chat_entries h es st1))" by (rule Cons.IH)
    with k Inr show ?thesis by (auto split: prod.splits)
  qed
qed

text \<open>
  When an entry has a segment, its role has no template, and it is not a user entry of a
  template set that defines \<open>first\<close>, the assembly fails.
\<close>

lemma missing_role_template_fails:
  assumes "e \<in> set (entries h)" and "k \<in> set (entry_keys e)"
    and "map_of (embedding_functions h) k \<noteq> None"
    and "entry_get e k \<noteq> Some PNone"
    and "map_of (template h) (role e) = None"
    and "\<not> (map_of (template h) ''first'' \<noteq> None \<and> role e = ''user'')"
  shows "isl (snd (embed_chat uc h))"
proof -
  from assms have "isl (snd (embed_chat_entries h (entries h) (initial_state uc)))"
    by (rule embed_chat_entries_missing_role)
  then show ?thesis
    by (auto simp: embed_chat_def split: prod.splits sum.splits)
qed

section \<open>The system prompt\<close>

lemma embed_cong_history:
  "ext h' = ext h \<Longrightarrow> embedding_functions h' = embedding_functions h \<Longrightarrow>
     embed h input ty tmpl = embed h' input ty tmpl"
  "ext h' = ext h \<Longrightarrow> embedding_functions h' = embedding_functions h \<Longrightarrow>
     embed_dict_loop h d tmpl = embed_dict_loop h' d tmpl"
proof (induction h input ty tmpl and h d tmpl rule: embed_embed_dict_loop.induct)
  case (1 h input ty tmpl)
  from "1.prems" have x: "ext h' = ext h" "embedding_functions h' = embedding_functions h"
    by auto
  define r where "r = (if truthy ty then Inr (the ty) else embedding_type (ext h) input)"
  define B where "B = (\<lambda>loop.
      (case r of Inl err \<Rightarrow> Inl err
       | Inr ty' \<Rightarrow>
         (case map_of (embedding_functions h) ty' of
            None \<Rightarrow> Inl (ValueError ''type did not have an embedding registered'')
          | Some ef \<Rightarrow>
             (case func ef of
                EmbedText \<Rightarrow> embed_text (ext h) input (if uses_template ef then tmpl else None) False
              | EmbedImage \<Rightarrow> embed_image (ext h) input (if uses_template ef then tmpl else None)
              | EmbedDict \<Rightarrow>
                 (case input of
                    PDict d \<Rightarrow>
                      (case loop d (if uses_template ef then tmpl else None) of
                         Inl err \<Rightarrow> Inl err
                       | Inr ts \<Rightarrow> embed_dict_result ts)
                  | _ \<Rightarrow> Inl (AttributeError ''items''))
              | Custom1 g \<Rightarrow>
                 (if uses_template ef then Inl (TypeError ''too many arguments'') else g input)
              | Custom2 g \<Rightarrow>
                 (if uses_template ef then g input tmpl
                  else Inl (TypeError ''missing argument''))))))"
  have L: "embed h input ty tmpl = B (embed_dict_loop h)"
    unfolding B_def r_def by (subst embed.simps) (simp only: Let_def)
  have R: "embed h' input ty tmpl = B (embed_dict_loop h')"
    unfolding B_def r_def by (subst embed.simps) (simp only: Let_def x)
  have "B (embed_dict_loop h) = B (embed_dict_loop h')"
  proof (cases r)
    case (Inl err)
    then show ?thesis by (simp add: B_def)
  next
    case (Inr ty')
    show ?thesis
    proof (cases "map_of (embedding_functions h) ty'")
      case None
      then show ?thesis using Inr by (simp add: B_def)
    next
      case (Some ef)
      show ?thesis
      proof (cases "func ef")
        case EmbedDict
        show ?thesis
        proof (cases input)
          case (PDict d)
          have "embed_dict_loop h d (if uses_template ef then tmpl else None) =
                embed_dict_loop h' d (if uses_template ef then tmpl else None)"
            using "1.IH" [OF Inr [unfolded r_def] Some refl EmbedDict PDict x] .
          then show ?thesis using Inr Some EmbedDict PDict by (simp add: B_def)
        qed (use Inr Some EmbedDict in \<open>simp_all add: B_def\<close>)
      qed (use Inr Some in \<open>simp_all add: B_def\<close>)
    qed
  qed
  with L R show ?case by simp
next
  case (2 h tmpl)
  then show ?case by simp
next
  case (3 h key v kvs tmpl)
  then show ?case by (auto split: sum.splits)
qed

lemma set_system_prompt_result:
  "set_system_prompt x h =
     (h\<lparr>template := AList.update ''system_prompt'' x (template h),
        entries := [\<lparr>role = ''system'', items = [(''text'', PStr x)]\<rparr>],
        kv_cache := None\<rparr>, Inr ())"
  by (simp add: set_system_prompt_def reset_def add_entry_def create_entry_def update_conv' Let_def)

text \<open>
  Claim C8. For a template set with a \<open>system\<close> template \<open>st\<close>, a registry that has no
  function for the key \<open>role\<close>, and a prompt \<open>x\<close> that the dispatcher embeds under \<open>st\<close> to
  \<open>t\<close>: setting the system prompt to \<open>x\<close> succeeds, stores \<open>x\<close> in the template, leaves one
  entry, the system entry with the text \<open>x\<close> and no cached embedding, and clears
  \<open>kv_cache\<close>; the next assembly, with or without the cache, returns \<open>t\<close> and position 0 and
  caches \<open>t\<close> on the new entry.
\<close>

theorem set_system_prompt_resets:
  assumes "map_of (template h) ''system'' = Some st"
    and "map_of (embedding_functions h) ''role'' = None"
    and "embed h (PStr x) (Some ''text'') (Some st) = Inr t"
  shows "snd (set_system_prompt x h) = Inr () \<and>
         system_prompt (fst (set_system_prompt x h)) = Inr x \<and>
         entries (fst (set_system_prompt x h)) = [\<lparr>role = ''system'', items = [(''text'', PStr x)]\<rparr>] \<and>
         kv_cache (fst (set_system_prompt x h)) = None \<and>
         snd (embed_chat uc (fst (set_system_prompt x h))) = Inr (t, 0) \<and>
         entries (fst (embed_chat uc (fst (set_system_prompt x h)))) =
           [\<lparr>role = ''system'', items = [(''text'', PStr x), (''text_embedding'', PTensor t)]\<rparr>]"
proof -
  define h1 where "h1 = fst (set_system_prompt x h)"
  have h1: "h1 = h\<lparr>template := AList.update ''system_prompt'' x (template h),
        entries := [\<lparr>role = ''system'', items = [(''text'', PStr x)]\<rparr>],
        kv_cache := None\<rparr>"
    by (simp add: h1_def set_system_prompt_result)
  have reg: "map_of (embedding_functions h) ''text'' \<noteq> None"
    using assms(3) by (subst (asm) embed.simps) (auto split: option.splits)
  have e1: "embed h1 (PStr x) (Some ''text'') (Some st) = Inr t"
    using assms(3) embed_cong_history(1) [of h1 h] by (simp add: h1)
  have tm: "map_of (template h1) ''system'' = Some st" "map_of (template h1) ''system_prompt'' = Some x"
    using assms(1) by (simp_all add: h1 update_conv')
  define e where "e = \<lparr>role = ''system'', items = [(''text'', PStr x)]\<rparr>"
  have rt: "role_template h1 e (initial_state uc) = Inr (st, initial_state uc)"
    using tm by (simp add: role_template_def e_def initial_state_def)
  have k1: "embed_chat_key h1 ''role'' (e, initial_state uc) = Inr (e, initial_state uc)"
    using assms(2) by (simp add: embed_chat_key.simps h1)
  have k2: "embed_chat_key h1 ''text'' (e, initial_state uc) =
      Inr (entry_set e ''text_embedding'' (PTensor t),
           (initial_state uc)\<lparr>embeddings := [PTensor t], use_cache := False\<rparr>)"
    using reg rt e1
    by (auto simp: embed_chat_key.simps embed_segment.simps h1 e_def entry_get_def Let_def
        count_user_prompt_def initial_state_def entry_set_def)
  have l: "embed_chat_entries h1 (entries h1) (initial_state uc) =
      ([entry_set e ''text_embedding'' (PTensor t)],
       Inr ((initial_state uc)\<lparr>embeddings := [PTensor t], use_cache := False\<rparr>))"
    using k1 k2 by (simp add: h1 e_def [symmetric] entry_keys_def) (simp add: e_def)
  have "snd (embed_chat uc h1) = Inr (t, 0)"
    by (simp add: embed_chat_def l) (simp add: np_concatenate_def initial_state_def)
  moreover have "entries (fst (embed_chat uc h1)) =
      [\<lparr>role = ''system'', items = [(''text'', PStr x), (''text_embedding'', PTensor t)]\<rparr>]"
    by (simp add: embed_chat_def l) (simp add: e_def entry_set_def)
  moreover have "system_prompt h1 = Inr x"
    using tm by (simp add: system_prompt_def)
  ultimately show ?thesis
    by (simp add: h1_def [symmetric]) (simp add: h1 h1_def set_system_prompt_result)
qed

section \<open>The user-turn counter and the template of the first turn\<close>

lemma entry_keys_get: "k \<in> set (entry_keys e) \<Longrightarrow> entry_get e k \<noteq> None"
  by (auto simp: entry_keys_def entry_get_def intro: weak_map_of_SomeI)

lemma keeps_has: "keeps e e' \<Longrightarrow> entry_get e k \<noteq> None \<Longrightarrow> entry_get e' k \<noteq> None"
  by (auto dest: keeps_get)

lemma keeps_embeddable:
  "keeps e e' \<Longrightarrow> entry_get e k \<noteq> None \<Longrightarrow> embeddable h e' k = embeddable h e k"
  by (auto simp: embeddable_def dest: keeps_get)

lemma role_template_state:
  assumes "role_template h e st = Inr (rt, st1)"
  shows "st1 = st\<lparr>open_user_prompt := open_user_prompt st1\<rparr>"
  using assms by (auto simp: role_template_def split: if_splits option.splits)

lemma embed_segment_num:
  "embed_segment h key v rt (e, st) = Inr (e', st') \<Longrightarrow> num_user_prompts st' = num_user_prompts st"
  by (auto simp: embed_segment.simps Let_def split: if_splits option.splits sum.splits)

lemma embed_chat_key_num:
  assumes "embed_chat_key h key (e, st) = Inr (e', st')"
  shows "num_user_prompts st' =
           num_user_prompts st + (if role e = ''user'' \<and> key = ''text'' \<and> embeddable h e key then 1 else 0)"
proof (cases "embeddable h e key")
  case False
  with assms have "st' = st"
    by (auto simp: embed_chat_key.simps embeddable_def split: if_splits option.splits)
  with False show ?thesis by simp
next
  case True
  then obtain v where v: "entry_get e key = Some v" "v \<noteq> PNone"
      "map_of (embedding_functions h) key \<noteq> None"
    by (auto simp: embeddable_def)
  with assms obtain rt st1 st2 where
      rt: "role_template h e st = Inr (rt, st1)"
      and seg: "embed_segment h key v rt (e, st1) = Inr (e', st2)"
      and st': "st' = count_user_prompt e' key st2"
    by (auto simp: embed_chat_key.simps split: sum.splits)
  from seg have "role e' = role e" by (auto dest: embed_segment_keeps keeps_role)
  moreover from rt have "num_user_prompts st1 = num_user_prompts st"
    by (auto simp: role_template_def split: if_splits option.splits)
  moreover from seg have "num_user_prompts st2 = num_user_prompts st1" by (rule embed_segment_num)
  ultimately show ?thesis using True st' by (simp add: count_user_prompt_def)
qed

lemma user_text_keys_Cons:
  "user_text_keys h e (k # ks) =
     (if role e = ''user'' \<and> k = ''text'' \<and> embeddable h e k then 1 else 0) + user_text_keys h e ks"
  by (auto simp: user_text_keys_def)

lemma user_text_keys_keeps:
  assumes "keeps e e'" and "\<forall>k\<in>set ks. entry_get e k \<noteq> None"
  shows "user_text_keys h e' ks = user_text_keys h e ks"
proof -
  have "filter (\<lambda>k. k = ''text'' \<and> embeddable h e' k) ks = filter (\<lambda>k. k = ''text'' \<and> embeddable h e k) ks"
    using assms by (intro filter_cong) (auto simp: keeps_embeddable)
  with assms(1) show ?thesis by (simp add: user_text_keys_def keeps_role)
qed

lemma embed_chat_keys_num:
  assumes "embed_chat_keys h ks (e, st) = (e', Inr st')" and "\<forall>k\<in>set ks. entry_get e k \<noteq> None"
  shows "num_user_prompts st' = num_user_prompts st + user_text_keys h e ks"
  using assms
proof (induction ks arbitrary: e st)
  case Nil
  then show ?case by (simp add: user_text_keys_def)
next
  case (Cons k ks)
  from Cons.prems(1) obtain e1 st1 where
      s: "embed_chat_key h k (e, st) = Inr (e1, st1)"
      and r: "embed_chat_keys h ks (e1, st1) = (e', Inr st')"
    by (auto split: sum.splits)
  from s have ke: "keeps e e1" by (rule embed_chat_key_keeps)
  with Cons.prems(2) have g: "\<forall>k\<in>set ks. entry_get e1 k \<noteq> None"
    using keeps_has by (metis list.set_intros(2))
  from r g have "num_user_prompts st' = num_user_prompts st1 + user_text_keys h e1 ks"
    by (rule Cons.IH)
  moreover have "user_text_keys h e1 ks = user_text_keys h e ks"
    using ke Cons.prems(2) by (intro user_text_keys_keeps) auto
  moreover note embed_chat_key_num [OF s]
  ultimately show ?case by (simp add: user_text_keys_Cons)
qed

lemma embed_chat_entries_num:
  assumes "embed_chat_entries h es st = (es', Inr st')"
  shows "num_user_prompts st' = num_user_prompts st + user_texts h es"
  using assms
proof (induction es arbitrary: st es')
  case Nil
  then show ?case by (simp add: user_texts_def)
next
  case (Cons e es)
  from Cons.prems obtain e1 st1 es1 where
      k: "embed_chat_keys h (entry_keys e) (e, st) = (e1, Inr st1)"
      and r: "embed_chat_entries h es st1 = (es1, Inr st')"
    by (auto split: prod.splits sum.splits)
  from k have "num_user_prompts st1 = num_user_prompts st + user_text_keys h e (entry_keys e)"
    by (rule embed_chat_keys_num) (simp add: entry_keys_get)
  moreover from r have "num_user_prompts st' = num_user_prompts st1 + user_texts h es"
    by (rule Cons.IH)
  ultimately show ?case by (simp add: user_texts_def)
qed

text \<open>
  Claim C3, amended. When the pass has gone through the entries \<open>pre\<close> and the keys \<open>kpre\<close>
  of the next entry \<open>e\<close> without error, the counter \<open>num_user_prompts\<close> is the number of
  text segments of user entries met so far. The template then chosen for a segment of \<open>e\<close> is
  the \<open>first\<close> template exactly when it is defined, \<open>e\<close> is a user entry and no text segment
  of a user entry came before: so for every segment of a user entry, an image too, up to and
  including the first text segment of a user entry; otherwise it is the template of the role
  of \<open>e\<close> (cut to its part from the placeholder on after an image). The counter goes up by
  one exactly when a text segment of a user entry has been processed.
\<close>

theorem first_template_until_first_user_text:
  assumes "embed_chat_entries h pre (initial_state uc) = (pre', Inr st1)"
    and "embed_chat_keys h kpre (e, st1) = (e1, Inr st2)"
    and "set kpre \<subseteq> set (entry_keys e)"
  shows "num_user_prompts st2 = user_texts h pre + user_text_keys h e kpre \<and>
     (\<forall>ft. map_of (template h) ''first'' = Some ft \<longrightarrow> role e = ''user'' \<longrightarrow>
        user_texts h pre + user_text_keys h e kpre = 0 \<longrightarrow>
        role_template h e1 st2 = Inr (ft, st2)) \<and>
     (\<forall>rt. map_of (template h) (role e) = Some rt \<longrightarrow>
        \<not> (map_of (template h) ''first'' \<noteq> None \<and> role e = ''user'' \<and>
           user_texts h pre + user_text_keys h e kpre = 0) \<longrightarrow>
        role_template h e1 st2 =
          Inr (if open_user_prompt st2 then slice_from rt (find_str rt MESSAGE) else rt,
               st2\<lparr>open_user_prompt := False\<rparr>)) \<and>
     (\<forall>key e2 st3. embed_chat_key h key (e1, st2) = Inr (e2, st3) \<longrightarrow>
        num_user_prompts st3 =
          num_user_prompts st2 +
          (if role e = ''user'' \<and> key = ''text'' \<and> embeddable h e1 key then 1 else 0))"
proof -
  from assms(1) have "num_user_prompts st1 = user_texts h pre"
    by (auto dest: embed_chat_entries_num simp: initial_state_def)
  moreover have "\<forall>k\<in>set kpre. entry_get e k \<noteq> None"
    using assms(3) entry_keys_get by blast
  with assms(2) have "num_user_prompts st2 = num_user_prompts st1 + user_text_keys h e kpre"
    by (rule embed_chat_keys_num)
  ultimately have n: "num_user_prompts st2 = user_texts h pre + user_text_keys h e kpre" by simp
  from assms(2) have r: "role e1 = role e"
    by (auto dest: embed_chat_keys_keeps keeps_role)
  show ?thesis
  proof (intro conjI allI impI)
    show "num_user_prompts st2 = user_texts h pre + user_text_keys h e kpre" by (rule n)
  next
    fix ft
    assume "map_of (template h) ''first'' = Some ft" "role e = ''user''"
      "user_texts h pre + user_text_keys h e kpre = 0"
    then show "role_template h e1 st2 = Inr (ft, st2)"
      using n r by (simp add: role_template_def)
  next
    fix rt
    assume "map_of (template h) (role e) = Some rt"
      "\<not> (map_of (template h) ''first'' \<noteq> None \<and> role e = ''user'' \<and>
           user_texts h pre + user_text_keys h e kpre = 0)"
    then show "role_template h e1 st2 =
          Inr (if open_user_prompt st2 then slice_from rt (find_str rt MESSAGE) else rt,
               st2\<lparr>open_user_prompt := False\<rparr>)"
      using n r by (auto simp: role_template_def)
  next
    fix key e2 st3
    assume "embed_chat_key h key (e1, st2) = Inr (e2, st3)"
    then show "num_user_prompts st3 =
          num_user_prompts st2 +
          (if role e = ''user'' \<and> key = ''text'' \<and> embeddable h e1 key then 1 else 0)"
      using r by (simp add: embed_chat_key_num)
  qed
qed

section \<open>A pass without the cache\<close>

lemma embed_chat_key_not_embeddable:
  assumes "embed_chat_key h k (e, st) = Inr (e1, st1)" and "\<not> embeddable h e k"
  shows "e1 = e \<and> st1 = st"
  using assms
  by (auto simp: embed_chat_key.simps embeddable_def split: if_splits option.splits)

lemma role_template_fields:
  assumes "role_template h e st = Inr (rt, st1)"
  shows "embeddings st1 = embeddings st \<and> position st1 = position st \<and>
         use_cache st1 = use_cache st \<and> num_user_prompts st1 = num_user_prompts st"
  using assms by (auto simp: role_template_def split: if_splits option.splits)

lemma count_user_prompt_fields [simp]:
  "embeddings (count_user_prompt e k st) = embeddings st"
  "position (count_user_prompt e k st) = position st"
  "use_cache (count_user_prompt e k st) = use_cache st"
  "open_user_prompt (count_user_prompt e k st) = open_user_prompt st"
  by (simp_all add: count_user_prompt_def)

lemma embed_segment_summary:
  assumes "embed_segment h k v rt (e, st) = Inr (e1, st1)"
  shows "\<exists>c. entry_get e1 (k @ ''_embedding'') = Some c \<and>
           (use_cache st1 \<longrightarrow> use_cache st) \<and>
           (if use_cache st1
            then embeddings st1 = embeddings st \<and> position st1 = position st + vlen c \<and> is_tensor c
            else embeddings st1 = embeddings st @ [c] \<and> position st1 = position st \<and>
                 (use_cache st \<longrightarrow> is_tensor c))"
  using assms
  by (auto simp: embed_segment.simps Let_def entry_get_entry_set'
      split: if_splits option.splits sum.splits elim!: shape1.elims)

lemma embed_chat_key_summary:
  assumes "embed_chat_key h k (e, st) = Inr (e1, st1)" and "embeddable h e k"
  shows "\<exists>c. entry_get e1 (k @ ''_embedding'') = Some c \<and>
           (use_cache st1 \<longrightarrow> use_cache st) \<and>
           (if use_cache st1
            then embeddings st1 = embeddings st \<and> position st1 = position st + vlen c \<and> is_tensor c
            else embeddings st1 = embeddings st @ [c] \<and> position st1 = position st \<and>
                 (use_cache st \<longrightarrow> is_tensor c))"
proof -
  from assms obtain v rt st0 st2 where
      rt: "role_template h e st = Inr (rt, st0)"
      and seg: "embed_segment h k v rt (e, st0) = Inr (e1, st2)"
      and st1: "st1 = count_user_prompt e1 k st2"
    by (auto simp: embed_chat_key.simps embeddable_def split: if_splits option.splits sum.splits)
  from embed_segment_summary [OF seg] role_template_fields [OF rt] st1
  show ?thesis by auto
qed

lemma cached_keeps:
  "keeps e e' \<Longrightarrow> entry_get e (k @ ''_embedding'') = Some c \<Longrightarrow> cached e' k = [c]"
  by (auto simp: cached_def dest: keeps_get)

lemma filter_embeddable_keeps:
  assumes "keeps e e'" and "\<forall>k\<in>set ks. entry_get e k \<noteq> None"
  shows "filter (embeddable h e') ks = filter (embeddable h e) ks"
  using assms by (intro filter_cong) (auto simp: keeps_embeddable)

lemma embed_chat_keys_no_cache:
  assumes "embed_chat_keys h ks (e, st) = (e', Inr st')" and "\<not> use_cache st"
    and "\<forall>k\<in>set ks. entry_get e k \<noteq> None"
  shows "\<not> use_cache st' \<and> position st' = position st \<and>
         embeddings st' = embeddings st @ concat (map (cached e') (filter (embeddable h e) ks)) \<and>
         (\<forall>k\<in>set (filter (embeddable h e) ks). entry_get e' (k @ ''_embedding'') \<noteq> None)"
  using assms
proof (induction ks arbitrary: e st)
  case Nil
  then show ?case by simp
next
  case (Cons k ks)
  from Cons.prems(1) obtain e1 st1 where
      s: "embed_chat_key h k (e, st) = Inr (e1, st1)"
      and r: "embed_chat_keys h ks (e1, st1) = (e', Inr st')"
    by (auto split: sum.splits)
  from s have ke: "keeps e e1" by (rule embed_chat_key_keeps)
  from r have ke': "keeps e1 e'" by (rule embed_chat_keys_keeps)
  from ke Cons.prems(3) have g: "\<forall>k\<in>set ks. entry_get e1 k \<noteq> None"
    using keeps_has by (metis list.set_intros(2))
  have f: "filter (embeddable h e1) ks = filter (embeddable h e) ks"
    using ke Cons.prems(3) by (intro filter_embeddable_keeps) auto
  show ?case
  proof (cases "embeddable h e k")
    case False
    with s have "e1 = e" "st1 = st" by (auto dest: embed_chat_key_not_embeddable)
    with r Cons.prems(2) g have "\<not> use_cache st' \<and> position st' = position st \<and>
         embeddings st' = embeddings st @ concat (map (cached e') (filter (embeddable h e) ks)) \<and>
         (\<forall>k\<in>set (filter (embeddable h e) ks). entry_get e' (k @ ''_embedding'') \<noteq> None)"
      by (intro Cons.IH) auto
    with False show ?thesis by simp
  next
    case True
    from embed_chat_key_summary [OF s True] Cons.prems(2) obtain c where
        c: "entry_get e1 (k @ ''_embedding'') = Some c"
        and u: "\<not> use_cache st1" "embeddings st1 = embeddings st @ [c]" "position st1 = position st"
      by (auto split: if_splits)
    from r u(1) g have ih: "\<not> use_cache st' \<and> position st' = position st1 \<and>
         embeddings st' = embeddings st1 @ concat (map (cached e') (filter (embeddable h e1) ks)) \<and>
         (\<forall>k\<in>set (filter (embeddable h e1) ks). entry_get e' (k @ ''_embedding'') \<noteq> None)"
      by (rule Cons.IH)
    from ke' c have c': "cached e' k = [c]" by (rule cached_keeps)
    from ke' c have "entry_get e' (k @ ''_embedding'') = Some c" by (rule keeps_get)
    with ih c' u f True show ?thesis by simp
  qed
qed

lemma emitted_Cons:
  "emitted h (e # es) (e' # es') = concat (map (cached e') (segments h e)) @ emitted h es es'"
  by (simp add: emitted_def)

lemma embed_chat_entries_no_cache:
  assumes "embed_chat_entries h es st = (es', Inr st')" and "\<not> use_cache st"
  shows "\<not> use_cache st' \<and> position st' = position st \<and>
         embeddings st' = embeddings st @ emitted h es es' \<and>
         list_all2 (\<lambda>e e'. \<forall>k\<in>set (segments h e). entry_get e' (k @ ''_embedding'') \<noteq> None) es es'"
  using assms
proof (induction es arbitrary: st es')
  case Nil
  then show ?case by (auto simp: emitted_def)
next
  case (Cons e es)
  from Cons.prems(1) obtain e1 st1 es1 where
      k: "embed_chat_keys h (entry_keys e) (e, st) = (e1, Inr st1)"
      and r: "embed_chat_entries h es st1 = (es1, Inr st')"
      and es': "es' = e1 # es1"
    by (auto split: prod.splits sum.splits)
  have "\<forall>k\<in>set (entry_keys e). entry_get e k \<noteq> None" by (simp add: entry_keys_get)
  with k Cons.prems(2) have a: "\<not> use_cache st1 \<and> position st1 = position st \<and>
         embeddings st1 = embeddings st @ concat (map (cached e1) (filter (embeddable h e) (entry_keys e))) \<and>
         (\<forall>k\<in>set (filter (embeddable h e) (entry_keys e)). entry_get e1 (k @ ''_embedding'') \<noteq> None)"
    by (rule embed_chat_keys_no_cache)
  with r have "\<not> use_cache st' \<and> position st' = position st1 \<and>
         embeddings st' = embeddings st1 @ emitted h es es1 \<and>
         list_all2 (\<lambda>e e'. \<forall>k\<in>set (segments h e). entry_get e' (k @ ''_embedding'') \<noteq> None) es es1"
    by (intro Cons.IH) auto
  with a es' show ?case by (simp add: emitted_Cons segments_def)
qed

text \<open>
  When an assembly without the cache returns a tensor \<open>t\<close> and a position \<open>p\<close>, then \<open>p\<close>
  is 0 and \<open>t\<close> is the concatenation, in the order of the entries and of their keys, of the
  embeddings that the entries hold after the call for every segment of every entry.
\<close>

lemma no_cache_pass_result:
  assumes "embed_chat False h = (h', Inr (t, p))"
  shows "p = 0 \<and> np_concatenate (emitted h (entries h) (entries h')) = Inr t \<and>
         length (entries h') = length (entries h) \<and>
         (\<forall>i<length (entries h).
            keeps (entries h ! i) (entries h' ! i) \<and>
            (\<forall>k\<in>set (segments h (entries h ! i)).
               entry_get (entries h' ! i) (k @ ''_embedding'') \<noteq> None))"
proof -
  from assms obtain es' st where
      l: "embed_chat_entries h (entries h) (initial_state False) = (es', Inr st)"
      and h': "entries h' = es'"
      and c: "np_concatenate (embeddings st) = Inr t" and p: "p = position st"
    by (auto simp: embed_chat_def split: prod.splits sum.splits)
  have "\<not> use_cache (initial_state False)" by (simp add: initial_state_def)
  with l have a: "\<not> use_cache st \<and> position st = position (initial_state False) \<and>
         embeddings st = embeddings (initial_state False) @ emitted h (entries h) es' \<and>
         list_all2 (\<lambda>e e'. \<forall>k\<in>set (segments h e). entry_get e' (k @ ''_embedding'') \<noteq> None)
           (entries h) es'"
    by (rule embed_chat_entries_no_cache)
  from l have k: "list_all2 keeps (entries h) es'" by (rule embed_chat_entries_keeps)
  from a p have "p = 0" by (simp add: initial_state_def)
  moreover from a c have "np_concatenate (emitted h (entries h) (entries h')) = Inr t"
    by (simp add: initial_state_def h')
  moreover from k have "length (entries h') = length (entries h)"
    by (simp add: h' list_all2_lengthD)
  moreover from a k have "\<forall>i<length (entries h).
            keeps (entries h ! i) (entries h' ! i) \<and>
            (\<forall>k\<in>set (segments h (entries h ! i)).
               entry_get (entries h' ! i) (k @ ''_embedding'') \<noteq> None)"
    by (simp add: h' list_all2_conv_all_nth)
  ultimately show ?thesis by blast
qed

section \<open>Replaying a pass on its own result\<close>

lemma total_len_append [simp]: "total_len (xs @ ys) = total_len xs + total_len ys"
  by (simp add: total_len_def)

lemma total_len_simps [simp]: "total_len [] = 0" "total_len (v # vs) = vlen v + total_len vs"
  by (simp_all add: total_len_def)

lemma as_arrays_Some:
  "as_arrays vs = Some ts \<Longrightarrow> length (concat ts) = total_len vs \<and> (\<forall>v\<in>set vs. is_tensor v)"
proof (induction vs arbitrary: ts)
  case Nil
  then show ?case by simp
next
  case (Cons v vs)
  then show ?case by (cases v) (auto split: option.splits)
qed

lemma np_concatenate_Inr:
  "np_concatenate vs = Inr t \<Longrightarrow> length t = total_len vs \<and> (\<forall>v\<in>set vs. is_tensor v)"
  by (auto simp: np_concatenate_def split: if_splits option.splits dest: as_arrays_Some)

lemma embed_entries_update [simp]:
  "embed (h\<lparr>entries := es\<rparr>) input ty tmpl = embed h input ty tmpl"
  by (rule embed_cong_history(1) [symmetric]) simp_all

lemma embed_chat_key_entries_update [simp]:
  "embed_chat_key (h\<lparr>entries := es\<rparr>) k (e, st) = embed_chat_key h k (e, st)"
  by (simp add: embed_chat_key.simps embed_segment.simps role_template_def cong: option.case_cong sum.case_cong if_cong)

lemma embed_chat_keys_entries_update [simp]:
  "embed_chat_keys (h\<lparr>entries := es\<rparr>) ks (e, st) = embed_chat_keys h ks (e, st)"
  by (induction ks arbitrary: e st) (auto split: sum.splits)

lemma embed_chat_entries_entries_update [simp]:
  "embed_chat_entries (h\<lparr>entries := es\<rparr>) es0 st = embed_chat_entries h es0 st"
  by (induction es0 arbitrary: st) (auto split: sum.splits prod.splits)

lemma embed_chat_keys_skip_all:
  "\<forall>k\<in>set ks. map_of (embedding_functions h) k = None \<Longrightarrow>
   embed_chat_keys h ks (e, st) = (e, Inr st)"
  by (induction ks) (simp_all add: embed_chat_key_skip)

lemma entry_keys_entry_set:
  "entry_get e k = None \<Longrightarrow> entry_keys (entry_set e k v) = entry_keys e @ [k]"
  by (auto simp: entry_keys_def entry_set_def entry_get_def update_keys map_of_eq_None_iff
      split: if_splits)

lemma new_keys_ok_refl [simp]: "new_keys_ok h e e"
  by (simp add: new_keys_ok_def)

lemma new_keys_ok_trans: "new_keys_ok h e1 e2 \<Longrightarrow> new_keys_ok h e2 e3 \<Longrightarrow> new_keys_ok h e1 e3"
  by (fastforce simp: new_keys_ok_def)

lemma embed_segment_new_keys:
  assumes "embed_segment h k v rt (e, st) = Inr (e1, st1)"
    and "map_of (embedding_functions h) k \<noteq> None"
  shows "new_keys_ok h e e1"
  using assms
  by (auto simp: embed_segment.simps Let_def new_keys_ok_def entry_keys_entry_set
      split: if_splits option.splits sum.splits)

lemma embed_chat_key_new_keys:
  assumes "embed_chat_key h k (e, st) = Inr (e1, st1)"
  shows "new_keys_ok h e e1"
proof (cases "embeddable h e k")
  case False
  with assms show ?thesis by (auto dest: embed_chat_key_not_embeddable)
next
  case True
  with assms obtain v rt st0 st2 where "embed_segment h k v rt (e, st0) = Inr (e1, st2)"
    by (auto simp: embed_chat_key.simps embeddable_def split: if_splits option.splits sum.splits)
  moreover from True have "map_of (embedding_functions h) k \<noteq> None"
    by (simp add: embeddable_def)
  ultimately show ?thesis by (rule embed_segment_new_keys)
qed

lemma embed_chat_keys_new_keys:
  "embed_chat_keys h ks (e, st) = (e', r) \<Longrightarrow> new_keys_ok h e e'"
proof (induction ks arbitrary: e st)
  case Nil
  then show ?case by simp
next
  case (Cons k ks)
  show ?case
  proof (cases "embed_chat_key h k (e, st)")
    case (Inl err)
    with Cons.prems show ?thesis by simp
  next
    case (Inr p)
    obtain e1 st1 where p: "p = (e1, st1)" by (cases p)
    from Inr p Cons.prems have "embed_chat_keys h ks (e1, st1) = (e', r)" by simp
    then have "new_keys_ok h e1 e'" by (rule Cons.IH)
    moreover from Inr p have "new_keys_ok h e e1" by (auto dest: embed_chat_key_new_keys)
    ultimately show ?thesis by (blast intro: new_keys_ok_trans)
  qed
qed

lemma embed_chat_key_embeddings_mono:
  assumes "embed_chat_key h k (e, st) = Inr (e1, st1)"
  shows "set (embeddings st) \<subseteq> set (embeddings st1)"
proof (cases "embeddable h e k")
  case False
  with assms show ?thesis by (auto dest: embed_chat_key_not_embeddable)
next
  case True
  from embed_chat_key_summary [OF assms True] show ?thesis by (auto split: if_splits)
qed

lemma embed_chat_keys_embeddings_mono:
  "embed_chat_keys h ks (e, st) = (e', Inr st') \<Longrightarrow> set (embeddings st) \<subseteq> set (embeddings st')"
proof (induction ks arbitrary: e st)
  case Nil
  then show ?case by simp
next
  case (Cons k ks)
  from Cons.prems obtain e1 st1 where
      s: "embed_chat_key h k (e, st) = Inr (e1, st1)"
      and r: "embed_chat_keys h ks (e1, st1) = (e', Inr st')"
    by (auto split: sum.splits)
  from embed_chat_key_embeddings_mono [OF s] Cons.IH [OF r] show ?case by blast
qed

lemma embed_chat_entries_embeddings_mono:
  "embed_chat_entries h es st = (es', Inr st') \<Longrightarrow> set (embeddings st) \<subseteq> set (embeddings st')"
proof (induction es arbitrary: st es')
  case Nil
  then show ?case by simp
next
  case (Cons e es)
  from Cons.prems obtain e1 st1 es1 where
      k: "embed_chat_keys h (entry_keys e) (e, st) = (e1, Inr st1)"
      and r: "embed_chat_entries h es st1 = (es1, Inr st')"
    by (auto split: prod.splits sum.splits)
  from embed_chat_keys_embeddings_mono [OF k] Cons.IH [OF r] show ?case by blast
qed

lemma role_template_transfer:
  assumes "role_template h e st = Inr p" and "role e2 = role e"
    and "num_user_prompts st2 = num_user_prompts st"
  shows "\<not> isl (role_template h e2 st2)"
  using assms by (auto simp: role_template_def split: if_splits option.splits)

text \<open>One key of a pass, replayed on an entry that kept what the pass stored, with the
  cache still in use: a cache hit that adds the length the pass added or emitted.\<close>

lemma replay_key:
  assumes s: "embed_chat_key h k (e, st) = Inr (e1, st1)"
    and t: "\<forall>v\<in>set (embeddings st1). is_tensor v"
    and ke: "keeps e1 e2"
    and u: "use_cache st2" and n: "num_user_prompts st2 = num_user_prompts st"
  shows "\<exists>st2'. embed_chat_key h k (e2, st2) = Inr (e2, st2') \<and> use_cache st2' \<and>
           embeddings st2' = embeddings st2 \<and>
           num_user_prompts st2' = num_user_prompts st1 \<and>
           position st2' + position st + total_len (embeddings st) =
           position st2 + position st1 + total_len (embeddings st1)"
proof (cases "embeddable h e k")
  case False
  with s have eq: "e1 = e" "st1 = st" by (auto dest: embed_chat_key_not_embeddable)
  from s False have "map_of (embedding_functions h) k = None \<or> entry_get e k = Some PNone"
    by (auto simp: embed_chat_key.simps embeddable_def split: if_splits option.splits)
  with ke eq have "map_of (embedding_functions h) k = None \<or> entry_get e2 k = Some PNone"
    by (auto dest: keeps_get)
  then have "embed_chat_key h k (e2, st2) = Inr (e2, st2)" by (rule embed_chat_key_skip)
  with eq u n show ?thesis by simp
next
  case True
  from s have k01: "keeps e e1" by (rule embed_chat_key_keeps)
  with ke have k02: "keeps e e2" by (blast intro: keeps_trans)
  then have r2: "role e2 = role e" by (rule keeps_role)
  from True obtain v where v: "entry_get e k = Some v" "v \<noteq> PNone"
      "map_of (embedding_functions h) k \<noteq> None"
    by (auto simp: embeddable_def)
  from k02 v(1) have v2: "entry_get e2 k = Some v" by (rule keeps_get)
  from s v obtain rt st0 where rt: "role_template h e st = Inr (rt, st0)"
    by (auto simp: embed_chat_key.simps split: sum.splits)
  from role_template_transfer [OF rt r2 n]
  obtain rt2 st2a where rt2: "role_template h e2 st2 = Inr (rt2, st2a)"
    by (cases "role_template h e2 st2") auto
  from role_template_fields [OF rt2] u have f2: "use_cache st2a" "embeddings st2a = embeddings st2"
      "position st2a = position st2" "num_user_prompts st2a = num_user_prompts st2"
    by auto
  from embed_chat_key_summary [OF s True] obtain c where
      c: "entry_get e1 (k @ ''_embedding'') = Some c"
      and d: "if use_cache st1
            then embeddings st1 = embeddings st \<and> position st1 = position st + vlen c \<and> is_tensor c
            else embeddings st1 = embeddings st @ [c] \<and> position st1 = position st \<and>
                 (use_cache st \<longrightarrow> is_tensor c)"
    by auto
  from d t have tc: "is_tensor c" by (auto split: if_splits)
  then obtain tt where tt: "c = PTensor tt" by (cases c) auto
  from ke c have c2: "entry_get e2 (k @ ''_embedding'') = Some c" by (rule keeps_get)
  have seg: "embed_segment h k v rt2 (e2, st2a) = Inr (e2, st2a\<lparr>position := position st2a + length tt\<rparr>)"
    using f2(1) c2 tt by (simp add: embed_segment.simps)
  have "embed_chat_key h k (e2, st2) =
          Inr (e2, count_user_prompt e2 k (st2a\<lparr>position := position st2a + length tt\<rparr>))"
    using v v2 rt2 seg by (auto simp: embed_chat_key.simps)
  moreover have "num_user_prompts (count_user_prompt e2 k (st2a\<lparr>position := position st2a + length tt\<rparr>)) =
                 num_user_prompts st1"
    using embed_chat_key_num [OF s] True f2 n r2 by (simp add: count_user_prompt_def)
  moreover have "position st2a + length tt + position st + total_len (embeddings st) =
           position st2 + position st1 + total_len (embeddings st1)"
    using d tt f2 by (auto split: if_splits)
  ultimately show ?thesis using f2 by simp
qed

lemma replay_keys:
  assumes "embed_chat_keys h ks (e, st) = (e', Inr st')"
    and "\<forall>v\<in>set (embeddings st'). is_tensor v"
    and "keeps e' e2"
    and "use_cache st2" and "num_user_prompts st2 = num_user_prompts st"
  shows "\<exists>st2'. embed_chat_keys h ks (e2, st2) = (e2, Inr st2') \<and> use_cache st2' \<and>
           embeddings st2' = embeddings st2 \<and>
           num_user_prompts st2' = num_user_prompts st' \<and>
           position st2' + position st + total_len (embeddings st) =
           position st2 + position st' + total_len (embeddings st')"
  using assms
proof (induction ks arbitrary: e st st2)
  case Nil
  then show ?case by simp
next
  case (Cons k ks)
  from Cons.prems(1) obtain e1 st1 where
      s: "embed_chat_key h k (e, st) = Inr (e1, st1)"
      and r: "embed_chat_keys h ks (e1, st1) = (e', Inr st')"
    by (auto split: sum.splits)
  from r have "keeps e1 e'" by (rule embed_chat_keys_keeps)
  with Cons.prems(3) have k12: "keeps e1 e2" by (blast intro: keeps_trans)
  from embed_chat_keys_embeddings_mono [OF r] Cons.prems(2)
  have t1: "\<forall>v\<in>set (embeddings st1). is_tensor v" by blast
  from replay_key [OF s t1 k12 Cons.prems(4) Cons.prems(5)] obtain st2a where
      a: "embed_chat_key h k (e2, st2) = Inr (e2, st2a)" "use_cache st2a"
         "embeddings st2a = embeddings st2" "num_user_prompts st2a = num_user_prompts st1"
         "position st2a + position st + total_len (embeddings st) =
          position st2 + position st1 + total_len (embeddings st1)"
    by blast
  from Cons.IH [OF r Cons.prems(2) Cons.prems(3) a(2) a(4)] obtain st2b where
      b: "embed_chat_keys h ks (e2, st2a) = (e2, Inr st2b)" "use_cache st2b"
         "embeddings st2b = embeddings st2a" "num_user_prompts st2b = num_user_prompts st'"
         "position st2b + position st1 + total_len (embeddings st1) =
          position st2a + position st' + total_len (embeddings st')"
    by blast
  from a b have "embed_chat_keys h (k # ks) (e2, st2) = (e2, Inr st2b)" by simp
  moreover from a b have "position st2b + position st + total_len (embeddings st) =
           position st2 + position st' + total_len (embeddings st')" by linarith
  ultimately show ?case using a b by auto
qed


section \<open>The second pass\<close>

lemma replay_entries:
  assumes "embed_chat_entries h es st = (es', Inr st')"
    and "\<forall>v\<in>set (embeddings st'). is_tensor v"
    and "use_cache st2" and "num_user_prompts st2 = num_user_prompts st"
    and reg: "\<forall>k. map_of (embedding_functions h) k \<noteq> None \<longrightarrow>
                map_of (embedding_functions h) (k @ ''_embedding'') = None"
  shows "\<exists>st2'. embed_chat_entries h es' st2 = (es', Inr st2') \<and> use_cache st2' \<and>
           embeddings st2' = embeddings st2 \<and>
           num_user_prompts st2' = num_user_prompts st' \<and>
           position st2' + position st + total_len (embeddings st) =
           position st2 + position st' + total_len (embeddings st')"
  using assms(1-4)
proof (induction es arbitrary: st es' st2)
  case Nil
  then show ?case by auto
next
  case (Cons e es)
  from Cons.prems(1) obtain e1 st1 es1 where
      k: "embed_chat_keys h (entry_keys e) (e, st) = (e1, Inr st1)"
      and r: "embed_chat_entries h es st1 = (es1, Inr st')"
      and es': "es' = e1 # es1"
    by (auto split: prod.splits sum.splits)
  from embed_chat_entries_embeddings_mono [OF r] Cons.prems(2)
  have t1: "\<forall>v\<in>set (embeddings st1). is_tensor v" by blast
  from replay_keys [OF k t1 keeps_refl Cons.prems(3) Cons.prems(4)] obtain st2a where
      a: "embed_chat_keys h (entry_keys e) (e1, st2) = (e1, Inr st2a)" "use_cache st2a"
         "embeddings st2a = embeddings st2" "num_user_prompts st2a = num_user_prompts st1"
         "position st2a + position st + total_len (embeddings st) =
          position st2 + position st1 + total_len (embeddings st1)"
    by blast
  from k have "new_keys_ok h e e1" by (rule embed_chat_keys_new_keys)
  then obtain new where new: "entry_keys e1 = entry_keys e @ new"
      "\<forall>k'\<in>set new. \<exists>k. map_of (embedding_functions h) k \<noteq> None \<and> k' = k @ ''_embedding''"
    by (auto simp: new_keys_ok_def)
  have "\<forall>k\<in>set new. map_of (embedding_functions h) k = None"
  proof
    fix k' assume "k' \<in> set new"
    with new(2) obtain k where "map_of (embedding_functions h) k \<noteq> None" "k' = k @ ''_embedding''"
      by blast
    with reg show "map_of (embedding_functions h) k' = None" by simp
  qed
  then have "embed_chat_keys h new (e1, st2a) = (e1, Inr st2a)" by (rule embed_chat_keys_skip_all)
  with a(1) new(1) have full: "embed_chat_keys h (entry_keys e1) (e1, st2) = (e1, Inr st2a)"
    by (simp add: embed_chat_keys_append)
  from Cons.IH [OF r Cons.prems(2) a(2) a(4)] obtain st2b where
      b: "embed_chat_entries h es1 st2a = (es1, Inr st2b)" "use_cache st2b"
         "embeddings st2b = embeddings st2a" "num_user_prompts st2b = num_user_prompts st'"
         "position st2b + position st1 + total_len (embeddings st1) =
          position st2a + position st' + total_len (embeddings st')"
    by blast
  from full b(1) es' have "embed_chat_entries h es' st2 = (es', Inr st2b)" by simp
  moreover from a(5) b(5) have "position st2b + position st + total_len (embeddings st) =
           position st2 + position st' + total_len (embeddings st')" by linarith
  moreover from a(3) b(3) have "embeddings st2b = embeddings st2" by simp
  ultimately show ?case using b(2) b(4) by blast
qed

text \<open>
  Claim C2, amended. After an assembly with the cache that returned the tensor \<open>t1\<close> and the
  position \<open>p1\<close>, and with no embedding function registered for a key \<open>k_embedding\<close> of a
  registered key \<open>k\<close>, the pass of a second assembly with the cache over the same entries
  meets cache hits only: it ends without error, leaves the entries as they are, emits
  nothing, and the position it has counted is \<open>p1\<close> plus the sequence length of \<open>t1\<close>. What
  the call returns once nothing was emitted is not stated here.
\<close>

theorem second_pass_all_cache_hits:
  assumes "embed_chat True h = (h1, Inr (t1, p1))"
    and "\<forall>k. map_of (embedding_functions h) k \<noteq> None \<longrightarrow>
            map_of (embedding_functions h) (k @ ''_embedding'') = None"
  shows "\<exists>st2. embed_chat_entries h1 (entries h1) (initial_state True) = (entries h1, Inr st2) \<and>
           embeddings st2 = [] \<and> use_cache st2 \<and> position st2 = p1 + length t1"
proof -
  from assms(1) obtain es' st where
      l: "embed_chat_entries h (entries h) (initial_state True) = (es', Inr st)"
      and h1: "h1 = h\<lparr>entries := es'\<rparr>"
      and c: "np_concatenate (embeddings st) = Inr t1" and p: "p1 = position st"
    by (auto simp: embed_chat_def split: prod.splits sum.splits)
  from np_concatenate_Inr [OF c] have t: "length t1 = total_len (embeddings st)"
      "\<forall>v\<in>set (embeddings st). is_tensor v"
    by auto
  have "use_cache (initial_state True)" by (simp add: initial_state_def)
  from replay_entries [OF l t(2) this refl assms(2)] obtain st2 where
      a: "embed_chat_entries h es' (initial_state True) = (es', Inr st2)" "use_cache st2"
         "embeddings st2 = embeddings (initial_state True)"
         "position st2 + position (initial_state True) + total_len (embeddings (initial_state True)) =
          position (initial_state True) + position st + total_len (embeddings st)"
    by blast
  from a(1) have "embed_chat_entries h1 (entries h1) (initial_state True) = (entries h1, Inr st2)"
    by (simp add: h1)
  moreover from a(3) have "embeddings st2 = []" by (simp add: initial_state_def)
  moreover from a(4) t(1) p have "position st2 = p1 + length t1" by (simp add: initial_state_def)
  ultimately show ?thesis using a(2) by blast
qed

section \<open>A pass without the cache returns\<close>

lemma role_template_role_cong:
  "role e' = role e \<Longrightarrow> role_template h e' st = role_template h e st"
  by (auto simp: role_template_def split: option.splits)

lemma role_template_defined:
  "map_of (template h) (role e) \<noteq> None \<Longrightarrow> \<exists>rt st1. role_template h e st = Inr (rt, st1)"
  by (auto simp: role_template_def)

lemma embed_segment_fresh:
  assumes "embed_segment h k0 v rt (e, st) = Inr (e1, st1)"
    and "entry_get e kk = None" and "entry_get e1 kk = Some c"
  shows "kk = k0 @ ''_embedding'' \<and> (\<exists>t. embed h v (Some k0) (Some rt) = Inr t \<and> c = PTensor t)"
  using assms
  by (auto simp: embed_segment.simps Let_def entry_get_entry_set'
      split: if_splits option.splits sum.splits)

lemma embed_chat_key_fresh:
  assumes s: "embed_chat_key h k0 (e, st) = Inr (e1, st1)"
    and n: "entry_get e kk = None" and c: "entry_get e1 kk = Some c"
  shows "\<exists>v rt st0 t. kk = k0 @ ''_embedding'' \<and> entry_get e k0 = Some v \<and>
           role_template h e st = Inr (rt, st0) \<and> embed h v (Some k0) (Some rt) = Inr t \<and>
           c = PTensor t"
proof (cases "embeddable h e k0")
  case False
  with s have "e1 = e" by (auto dest: embed_chat_key_not_embeddable)
  with n c show ?thesis by simp
next
  case True
  with s obtain v rt st0 st2 where
      v: "entry_get e k0 = Some v"
      and rt: "role_template h e st = Inr (rt, st0)"
      and seg: "embed_segment h k0 v rt (e, st0) = Inr (e1, st2)"
    by (auto simp: embed_chat_key.simps embeddable_def split: if_splits option.splits sum.splits)
  from embed_segment_fresh [OF seg n c] v rt show ?thesis by blast
qed

lemma embed_chat_keys_fresh:
  assumes "embed_chat_keys h ks (e, st) = (e', r)"
    and "entry_get e (k @ ''_embedding'') = None"
    and "entry_get e' (k @ ''_embedding'') = Some c"
  shows "\<exists>v rt st0 st1 t. entry_get e' k = Some v \<and> role_template h e st0 = Inr (rt, st1) \<and>
           embed h v (Some k) (Some rt) = Inr t \<and> c = PTensor t"
  using assms
proof (induction ks arbitrary: e st)
  case Nil
  then show ?case by simp
next
  case (Cons k0 ks)
  show ?case
  proof (cases "embed_chat_key h k0 (e, st)")
    case (Inl err)
    with Cons.prems show ?thesis by simp
  next
    case (Inr p)
    obtain e1 st1 where p: "p = (e1, st1)" by (cases p)
    with Inr have s: "embed_chat_key h k0 (e, st) = Inr (e1, st1)" by simp
    with Cons.prems(1) have r: "embed_chat_keys h ks (e1, st1) = (e', r)" by simp
    from s have k01: "keeps e e1" by (rule embed_chat_key_keeps)
    from r have k1: "keeps e1 e'" by (rule embed_chat_keys_keeps)
    from k01 have ro: "role e1 = role e" by (rule keeps_role)
    show ?thesis
    proof (cases "entry_get e1 (k @ ''_embedding'')")
      case None
      from Cons.IH [OF r None Cons.prems(3)] show ?thesis
        by (simp add: role_template_role_cong [OF ro])
    next
      case (Some c1)
      from embed_chat_key_fresh [OF s Cons.prems(2) Some] obtain v rt st0 t where
          f: "k @ ''_embedding'' = k0 @ ''_embedding''" "entry_get e k0 = Some v"
             "role_template h e st = Inr (rt, st0)" "embed h v (Some k0) (Some rt) = Inr t"
             "c1 = PTensor t"
        by blast
      from f(1) have kk: "k0 = k" by simp
      from k1 Some have "entry_get e' (k @ ''_embedding'') = Some c1" by (rule keeps_get)
      with Cons.prems(3) have cc: "c = c1" by simp
      from k01 k1 have "keeps e e'" by (blast intro: keeps_trans)
      with f(2) kk have "entry_get e' k = Some v" by (auto dest: keeps_get)
      with f kk cc show ?thesis by blast
    qed
  qed
qed

lemma kept_or_computed_keys:
  assumes l: "embed_chat_keys h ks (e, st) = (e', r)"
    and p: "entry_get e k \<noteq> None"
    and s: "entry_get e' (k @ ''_embedding'') \<noteq> None"
  shows "kept_or_computed h e e' k"
proof -
  from l have ke: "keeps e e'" by (rule embed_chat_keys_keeps)
  show ?thesis
  proof (cases "entry_get e (k @ ''_embedding'')")
    case (Some c)
    with ke have "entry_get e' (k @ ''_embedding'') = Some c" by (auto dest: keeps_get)
    with Some show ?thesis by (simp add: kept_or_computed_def)
  next
    case None
    from s obtain c where c: "entry_get e' (k @ ''_embedding'') = Some c" by auto
    from embed_chat_keys_fresh [OF l None c] obtain v rt st0 st1 t where
        f: "entry_get e' k = Some v" "role_template h e st0 = Inr (rt, st1)"
           "embed h v (Some k) (Some rt) = Inr t" "c = PTensor t"
      by blast
    from p obtain v0 where v0: "entry_get e k = Some v0" by auto
    with ke have "entry_get e' k = Some v0" by (auto dest: keeps_get)
    with f(1) v0 have "entry_get e k = Some v" by simp
    with f c None show ?thesis by (auto simp: kept_or_computed_def)
  qed
qed

lemma embed_chat_key_no_cache_total:
  assumes nc: "\<not> use_cache st" and p: "entry_get e k \<noteq> None" and rd: "ready h e [k]"
  shows "\<exists>e1 st1. embed_chat_key h k (e, st) = Inr (e1, st1)"
proof (cases "embeddable h e k")
  case False
  with p have "map_of (embedding_functions h) k = None \<or> entry_get e k = Some PNone"
    by (auto simp: embeddable_def)
  then have "embed_chat_key h k (e, st) = Inr (e, st)" by (rule embed_chat_key_skip)
  then show ?thesis by blast
next
  case True
  then obtain v where v: "entry_get e k = Some v" "v \<noteq> PNone"
      "map_of (embedding_functions h) k \<noteq> None"
    by (auto simp: embeddable_def)
  from rd True have t: "map_of (template h) (role e) \<noteq> None"
    and em: "entry_get e (k @ ''_embedding'') = None \<longrightarrow>
             (\<forall>v rt. entry_get e k = Some v \<longrightarrow> \<not> isl (embed h v (Some k) (Some rt)))"
    by (auto simp: ready_def)
  from role_template_defined [OF t] obtain rt st0 where
      rt: "role_template h e st = Inr (rt, st0)"
    by blast
  from role_template_fields [OF rt] nc have nc0: "\<not> use_cache st0" by simp
  have "\<exists>e1 st2. embed_segment h k v rt (e, st0) = Inr (e1, st2)"
  proof (cases "entry_get e (k @ ''_embedding'')")
    case (Some c)
    with nc0 show ?thesis by (simp add: embed_segment.simps)
  next
    case None
    with em v(1) have "\<not> isl (embed h v (Some k) (Some rt))" by blast
    then obtain t where "embed h v (Some k) (Some rt) = Inr t"
      by (cases "embed h v (Some k) (Some rt)") auto
    with nc0 None show ?thesis by (simp add: embed_segment.simps)
  qed
  then obtain e1 st2 where "embed_segment h k v rt (e, st0) = Inr (e1, st2)" by blast
  with v rt show ?thesis by (simp add: embed_chat_key.simps)
qed

lemma ready_keeps:
  assumes ke: "keeps e e1" and p: "\<forall>k\<in>set ks. entry_get e k \<noteq> None" and rd: "ready h e ks"
  shows "ready h e1 ks"
  unfolding ready_def
proof (intro ballI impI conjI allI)
  fix k
  assume k: "k \<in> set ks" and em: "embeddable h e1 k"
  from p k have pk: "entry_get e k \<noteq> None" by blast
  with ke em have em0: "embeddable h e k" by (simp add: keeps_embeddable)
  from ke have ro: "role e1 = role e" by (rule keeps_role)
  from rd k em0 ro show "map_of (template h) (role e1) \<noteq> None" by (simp add: ready_def)
  fix v rt
  assume n1: "entry_get e1 (k @ ''_embedding'') = None" and v1: "entry_get e1 k = Some v"
  have n0: "entry_get e (k @ ''_embedding'') = None"
  proof (cases "entry_get e (k @ ''_embedding'')")
    case (Some c)
    with ke have "entry_get e1 (k @ ''_embedding'') = Some c" by (auto dest: keeps_get)
    with n1 show ?thesis by simp
  qed simp
  from pk obtain v0 where "entry_get e k = Some v0" by auto
  with ke v1 have "entry_get e k = Some v" by (auto dest: keeps_get)
  with rd k em0 n0 show "\<not> isl (embed h v (Some k) (Some rt))" by (simp add: ready_def)
qed

lemma embed_chat_keys_no_cache_total:
  assumes "\<not> use_cache st" and "\<forall>k\<in>set ks. entry_get e k \<noteq> None" and "ready h e ks"
  shows "\<exists>e' st'. embed_chat_keys h ks (e, st) = (e', Inr st')"
  using assms
proof (induction ks arbitrary: e st)
  case Nil
  then show ?case by simp
next
  case (Cons k ks)
  from Cons.prems(3) have r1: "ready h e [k]" and r2: "ready h e ks"
    by (simp_all add: ready_def)
  from Cons.prems(2) have pk: "entry_get e k \<noteq> None" and pks: "\<forall>k\<in>set ks. entry_get e k \<noteq> None"
    by simp_all
  from embed_chat_key_no_cache_total [OF Cons.prems(1) pk r1] obtain e1 st1 where
      s: "embed_chat_key h k (e, st) = Inr (e1, st1)"
    by blast
  from s have ke: "keeps e e1" by (rule embed_chat_key_keeps)
  have nc1: "\<not> use_cache st1"
  proof (cases "embeddable h e k")
    case False
    with s Cons.prems(1) show ?thesis by (auto dest: embed_chat_key_not_embeddable)
  next
    case True
    from embed_chat_key_summary [OF s True] Cons.prems(1) show ?thesis by auto
  qed
  from ke pks have p1: "\<forall>k\<in>set ks. entry_get e1 k \<noteq> None"
    using keeps_has by blast
  from ke pks r2 have r21: "ready h e1 ks" by (rule ready_keeps)
  from Cons.IH [OF nc1 p1 r21] obtain e' st' where
      "embed_chat_keys h ks (e1, st1) = (e', Inr st')"
    by blast
  with s show ?case by simp
qed

lemma embed_chat_entries_no_cache_total:
  assumes "\<not> use_cache st" and "\<forall>e\<in>set es. ready h e (entry_keys e)"
  shows "\<exists>es' st'. embed_chat_entries h es st = (es', Inr st')"
  using assms
proof (induction es arbitrary: st)
  case Nil
  then show ?case by simp
next
  case (Cons e es)
  have p: "\<forall>k\<in>set (entry_keys e). entry_get e k \<noteq> None" by (simp add: entry_keys_get)
  from Cons.prems(2) have r: "ready h e (entry_keys e)" by simp
  from embed_chat_keys_no_cache_total [OF Cons.prems(1) p r] obtain e1 st1 where
      k: "embed_chat_keys h (entry_keys e) (e, st) = (e1, Inr st1)"
    by blast
  from embed_chat_keys_no_cache [OF k Cons.prems(1) p] have nc1: "\<not> use_cache st1" by simp
  from Cons.prems(2) have "\<forall>e\<in>set es. ready h e (entry_keys e)" by simp
  from Cons.IH [OF nc1 this] obtain es1 st' where
      "embed_chat_entries h es st1 = (es1, Inr st')"
    by blast
  with k show ?case by simp
qed

lemma embed_chat_entries_kept_or_computed:
  assumes "embed_chat_entries h es st = (es', Inr st')" and "\<not> use_cache st"
  shows "list_all2 (\<lambda>e e'. \<forall>k\<in>set (segments h e). kept_or_computed h e e' k) es es'"
  using assms
proof (induction es arbitrary: st es')
  case Nil
  then show ?case by simp
next
  case (Cons e es)
  from Cons.prems(1) obtain e1 st1 es1 where
      k: "embed_chat_keys h (entry_keys e) (e, st) = (e1, Inr st1)"
      and r: "embed_chat_entries h es st1 = (es1, Inr st')"
      and es': "es' = e1 # es1"
    by (auto split: prod.splits sum.splits)
  have p: "\<forall>k\<in>set (entry_keys e). entry_get e k \<noteq> None" by (simp add: entry_keys_get)
  from embed_chat_keys_no_cache [OF k Cons.prems(2) p] have nc1: "\<not> use_cache st1"
    and st: "\<forall>k\<in>set (filter (embeddable h e) (entry_keys e)). entry_get e1 (k @ ''_embedding'') \<noteq> None"
    by simp_all
  have "\<forall>k\<in>set (segments h e). kept_or_computed h e e1 k"
  proof
    fix k
    assume ks: "k \<in> set (segments h e)"
    then have "entry_get e k \<noteq> None" by (simp add: segments_def entry_keys_get)
    moreover from ks st have "entry_get e1 (k @ ''_embedding'') \<noteq> None" by (simp add: segments_def)
    ultimately show "kept_or_computed h e e1 k" by (rule kept_or_computed_keys [OF k])
  qed
  moreover from Cons.IH [OF r nc1]
  have "list_all2 (\<lambda>e e'. \<forall>k\<in>set (segments h e). kept_or_computed h e e' k) es es1" .
  ultimately show ?case using es' by simp
qed

lemma kept_or_computed_cached: "kept_or_computed h e e' k \<Longrightarrow> cached e' k \<noteq> []"
  by (auto simp: kept_or_computed_def cached_def split: option.splits)

lemma kept_or_computed_tensor:
  assumes "kept_or_computed h e e' k" and "\<forall>c\<in>set (cached e k). is_tensor c"
    and "c \<in> set (cached e' k)"
  shows "is_tensor c"
  using assms by (auto simp: kept_or_computed_def cached_def split: option.splits)

lemma as_arrays_tensors: "\<forall>v\<in>set vs. is_tensor v \<Longrightarrow> as_arrays vs \<noteq> None"
proof (induction vs)
  case Nil
  then show ?case by simp
next
  case (Cons v vs)
  then show ?case by (cases v) auto
qed

lemma np_concatenate_tensors:
  assumes "vs \<noteq> []" and "\<forall>v\<in>set vs. is_tensor v"
  shows "\<exists>t. np_concatenate vs = Inr t"
  using assms as_arrays_tensors [of vs] by (auto simp: np_concatenate_def)

lemma set_emitted:
  "length es' = length es \<Longrightarrow>
   set (emitted h es es') =
     {c. \<exists>i<length es. \<exists>k\<in>set (segments h (es ! i)). c \<in> set (cached (es' ! i) k)}"
  by (auto simp: emitted_def set_zip)

text \<open>
  Claim C4, amended. For a history with at least one segment, in which every entry that has
  a segment has a template for its role, the cached embeddings of segments are arrays, and
  the dispatcher embeds, under any template, the content of every segment that has no cached
  embedding: an assembly without the cache returns; the position is 0; the tensor is the
  concatenation, in the order of the entries and of their keys, of the embeddings of every
  segment of every entry, a cached one as the entry held it (the cache is not used to skip
  or to count it), a missing one as the dispatcher returns it for the content of the segment
  under a template selected for the entry, which is then stored on the entry; no entry is
  added or removed and what an entry held stays.
\<close>

theorem no_cache_returns_all_segments:
  assumes seg: "\<exists>e\<in>set (entries h). segments h e \<noteq> []"
    and tmpl: "\<forall>e\<in>set (entries h). segments h e \<noteq> [] \<longrightarrow> map_of (template h) (role e) \<noteq> None"
    and arr: "\<forall>e\<in>set (entries h). \<forall>k\<in>set (segments h e). \<forall>c\<in>set (cached e k). is_tensor c"
    and emb: "\<forall>e\<in>set (entries h). \<forall>k\<in>set (segments h e).
                entry_get e (k @ ''_embedding'') = None \<longrightarrow>
                (\<forall>v rt. entry_get e k = Some v \<longrightarrow> \<not> isl (embed h v (Some k) (Some rt)))"
  shows "\<exists>h' t. embed_chat False h = (h', Inr (t, 0)) \<and>
           np_concatenate (emitted h (entries h) (entries h')) = Inr t \<and>
           length (entries h') = length (entries h) \<and>
           (\<forall>i<length (entries h).
              keeps (entries h ! i) (entries h' ! i) \<and>
              (\<forall>k\<in>set (segments h (entries h ! i)).
                 kept_or_computed h (entries h ! i) (entries h' ! i) k))"
proof -
  have nc: "\<not> use_cache (initial_state False)" by (simp add: initial_state_def)
  have rd: "\<forall>e\<in>set (entries h). ready h e (entry_keys e)"
    unfolding ready_def
  proof (intro ballI impI conjI allI)
    fix e k
    assume e: "e \<in> set (entries h)" and k: "k \<in> set (entry_keys e)" and em: "embeddable h e k"
    then have ks: "k \<in> set (segments h e)" by (simp add: segments_def)
    then have "segments h e \<noteq> []" by auto
    with tmpl e show "map_of (template h) (role e) \<noteq> None" by blast
    fix v rt
    assume "entry_get e (k @ ''_embedding'') = None" "entry_get e k = Some v"
    with emb e ks show "\<not> isl (embed h v (Some k) (Some rt))" by blast
  qed
  from embed_chat_entries_no_cache_total [OF nc rd] obtain es' st where
      l: "embed_chat_entries h (entries h) (initial_state False) = (es', Inr st)"
    by blast
  from embed_chat_entries_no_cache [OF l nc] have
      p: "position st = 0" and em: "embeddings st = emitted h (entries h) es'"
    by (simp_all add: initial_state_def)
  from l have ke: "list_all2 keeps (entries h) es'" by (rule embed_chat_entries_keeps)
  then have len: "length es' = length (entries h)" by (simp add: list_all2_lengthD)
  from embed_chat_entries_kept_or_computed [OF l nc]
  have kc: "list_all2 (\<lambda>e e'. \<forall>k\<in>set (segments h e). kept_or_computed h e e' k) (entries h) es'" .
  have kci: "\<And>i k. i < length (entries h) \<Longrightarrow> k \<in> set (segments h (entries h ! i)) \<Longrightarrow>
               kept_or_computed h (entries h ! i) (es' ! i) k"
    using kc by (auto simp: list_all2_conv_all_nth)
  have tens: "\<forall>v\<in>set (emitted h (entries h) es'). is_tensor v"
  proof
    fix c
    assume "c \<in> set (emitted h (entries h) es')"
    then obtain i k where i: "i < length (entries h)" and k: "k \<in> set (segments h (entries h ! i))"
        and c: "c \<in> set (cached (es' ! i) k)"
      by (auto simp: set_emitted [OF len])
    from i have "entries h ! i \<in> set (entries h)" by simp
    with arr k have a: "\<forall>c\<in>set (cached (entries h ! i) k). is_tensor c" by blast
    from kci [OF i k] a c show "is_tensor c" by (rule kept_or_computed_tensor)
  qed
  have ne: "emitted h (entries h) es' \<noteq> []"
  proof -
    from seg obtain e where "e \<in> set (entries h)" "segments h e \<noteq> []" by blast
    then obtain i k where i: "i < length (entries h)" and k: "k \<in> set (segments h (entries h ! i))"
      by (metis in_set_conv_nth last_in_set)
    from kci [OF i k] have "cached (es' ! i) k \<noteq> []" by (rule kept_or_computed_cached)
    then obtain c where "c \<in> set (cached (es' ! i) k)" by (cases "cached (es' ! i) k") auto
    with i k have "c \<in> set (emitted h (entries h) es')" by (auto simp: set_emitted [OF len])
    then show ?thesis by auto
  qed
  from np_concatenate_tensors [OF ne tens] obtain t where
      t: "np_concatenate (emitted h (entries h) es') = Inr t"
    by blast
  from l em t p have "embed_chat False h = (h\<lparr>entries := es'\<rparr>, Inr (t, 0))"
    by (simp add: embed_chat_def)
  moreover have "np_concatenate (emitted h (entries h) (entries (h\<lparr>entries := es'\<rparr>))) = Inr t"
    using t by simp
  moreover have "length (entries (h\<lparr>entries := es'\<rparr>)) = length (entries h)" using len by simp
  moreover have "\<forall>i<length (entries h).
              keeps (entries h ! i) (entries (h\<lparr>entries := es'\<rparr>) ! i) \<and>
              (\<forall>k\<in>set (segments h (entries h ! i)).
                 kept_or_computed h (entries h ! i) (entries (h\<lparr>entries := es'\<rparr>) ! i) k)"
    using ke kci by (simp add: list_all2_conv_all_nth)
  ultimately show ?thesis by blast
qed


section \<open>The sample history: cache hits, second pass, first template\<close>

lemma sample_registry:
  "map fst (embedding_functions sample_history) = [''text'', ''dict'', ''image'']"
  by code_simp

lemma sample_registry_lookup:
  "map_of (embedding_functions sample_history) k \<noteq> None \<longleftrightarrow> k \<in> {''text'', ''dict'', ''image''}"
proof -
  have "map_of (embedding_functions sample_history) k \<noteq> None \<longleftrightarrow>
        k \<in> set (map fst (embedding_functions sample_history))"
    by (simp add: map_of_eq_None_iff)
  then show ?thesis by (simp add: sample_registry)
qed

lemma sample_registry_text: "map_of (embedding_functions sample_history) ''text'' \<noteq> None"
proof -
  have "''text'' \<in> {''text'', ''dict'', ''image''}" by simp
  then show ?thesis by (simp only: sample_registry_lookup)
qed

lemma sample_registry_embedding_keys:
  "\<forall>k. map_of (embedding_functions sample_history) k \<noteq> None \<longrightarrow>
       map_of (embedding_functions sample_history) (k @ ''_embedding'') = None"
proof (intro allI impI)
  fix k
  assume "map_of (embedding_functions sample_history) k \<noteq> None"
  then have "k \<in> {''text'', ''dict'', ''image''}" by (simp only: sample_registry_lookup)
  then consider "k = ''text''" | "k = ''dict''" | "k = ''image''" by blast
  then have "k @ ''_embedding'' \<notin> {''text'', ''dict'', ''image''}" by cases simp_all
  then have "\<not> map_of (embedding_functions sample_history) (k @ ''_embedding'') \<noteq> None"
    by (simp only: sample_registry_lookup simp_thms)
  then show "map_of (embedding_functions sample_history) (k @ ''_embedding'') = None" by simp
qed

text \<open>
  Claim C1 as stated fails: the first entry is a bot entry with a cached text embedding of
  length 3 and the second a new user entry; the assembly returns the position 3.
\<close>

theorem cached_bot_counted:
  "role (entries bot_then_user_history ! 0) = ''bot'' \<and>
   cached (entries bot_then_user_history ! 0) ''text'' = [PTensor [32, 111, 107]] \<and>
   snd (embed_chat True bot_then_user_history) = Inr ([113, 47], 3)"
  by code_simp

text \<open>
  Witness of C1, amended: the cached text of the bot entry, in the first iteration of a pass.
\<close>

theorem cache_hit_advances_position_witness:
  "embed_chat_key sample_history ''text'' (sample_bot_entry, initial_state True) =
     Inr (sample_bot_entry, (initial_state True)\<lparr>position := 3\<rparr>)"
proof -
  have a: "use_cache (initial_state True)" by code_simp
  note b = sample_registry_text
  have c: "entry_get sample_bot_entry ''text'' = Some (PStr ''ok'')" by code_simp
  have d: "PStr ''ok'' \<noteq> PNone" by simp
  have e: "entry_get sample_bot_entry (''text'' @ ''_embedding'') = Some (PTensor [32, 111, 107])"
    by code_simp
  have f: "role_template sample_history sample_bot_entry (initial_state True) =
             Inr ('' '' @ MESSAGE, initial_state True)"
    by code_simp
  from cache_hit_advances_position [OF a b c d e f] show ?thesis
    by (simp add: count_user_prompt_def sample_bot_entry_def initial_state_def)
qed

text \<open>
  Claim C2 as stated fails: on the history that the constructor returns, the first assembly
  returns the embedding of the system prompt and position 0, and the second one, with no
  entry added, raises the \<open>ValueError\<close> of \<open>np.concatenate\<close> on an empty list.
\<close>

theorem second_call_fails:
  "snd (embed_chat True sample_history) = Inr ([60, 60, 72, 105, 62, 62], 0) \<and>
   snd (embed_chat True sample_cached_history) =
     Inl (ValueError ''need at least one array to concatenate'')"
  by code_simp

text \<open>
  Witness of C2, amended: the second pass over that history counts the position 6, the
  length of the tensor of the first call.
\<close>

theorem second_pass_all_cache_hits_witness:
  "\<exists>st2. embed_chat_entries sample_cached_history (entries sample_cached_history) (initial_state True) =
           (entries sample_cached_history, Inr st2) \<and>
         embeddings st2 = [] \<and> use_cache st2 \<and> position st2 = 6"
proof -
  have "snd (embed_chat True sample_history) = Inr ([60, 60, 72, 105, 62, 62], 0)" by code_simp
  then have a: "embed_chat True sample_history = (sample_cached_history, Inr ([60, 60, 72, 105, 62, 62], 0))"
    by (simp add: sample_cached_history_def prod_eq_iff)
  from second_pass_all_cache_hits [OF a sample_registry_embedding_keys] show ?thesis
    by (simp add: eval_nat_numeral)
qed

text \<open>
  Claim C3 as stated fails: in a first user entry with an image and a text, the image
  segment is embedded with the \<open>first\<close> template (whose part before the placeholder is
  empty), not with the \<open>user\<close> template.
\<close>

theorem first_template_for_image_segment:
  "entry_get (entries (fst (embed_chat True sample_image_history)) ! 1) ''image_embedding'' =
     Some (PTensor [1001, 2001, 10]) \<and>
   embed_image sample_ext (PImage 1) (map_of sample_template ''first'') = Inr [1001, 2001, 10] \<and>
   embed_image sample_ext (PImage 1) (map_of sample_template ''user'') =
     Inr [91, 73, 93, 1001, 2001, 10]"
  by code_simp

text \<open>
  Witness of C3, amended: after the system entry and the keys \<open>role\<close> and \<open>image\<close> of the user
  entry, the text segment gets the \<open>first\<close> template.
\<close>

theorem first_template_until_first_user_text_witness:
  "role_template sample_image_history
     \<lparr>role = ''user'', items = [(''image'', PImage 1), (''text'', PStr ''q''),
         (''image_embedding'', PTensor [1001, 2001, 10])]\<rparr>
     \<lparr>embeddings = [PTensor [60, 60, 72, 105, 62, 62], PTensor [1001, 2001, 10]], position = 0,
       num_user_prompts = 0, open_user_prompt = True, use_cache = False\<rparr> =
   Inr (MESSAGE @ ''/'',
     \<lparr>embeddings = [PTensor [60, 60, 72, 105, 62, 62], PTensor [1001, 2001, 10]], position = 0,
       num_user_prompts = 0, open_user_prompt = True, use_cache = False\<rparr>)"
proof -
  have a: "embed_chat_entries sample_image_history [\<lparr>role = ''system'', items = [(''text'', PStr ''Hi'')]\<rparr>]
             (initial_state True) =
           ([\<lparr>role = ''system'', items = [(''text'', PStr ''Hi''),
                (''text_embedding'', PTensor [60, 60, 72, 105, 62, 62])]\<rparr>],
            Inr \<lparr>embeddings = [PTensor [60, 60, 72, 105, 62, 62]], position = 0,
                  num_user_prompts = 0, open_user_prompt = False, use_cache = False\<rparr>)"
    by code_simp
  have b: "embed_chat_keys sample_image_history [''role'', ''image'']
             (\<lparr>role = ''user'', items = [(''image'', PImage 1), (''text'', PStr ''q'')]\<rparr>,
              \<lparr>embeddings = [PTensor [60, 60, 72, 105, 62, 62]], position = 0,
                  num_user_prompts = 0, open_user_prompt = False, use_cache = False\<rparr>) =
           (\<lparr>role = ''user'', items = [(''image'', PImage 1), (''text'', PStr ''q''),
                (''image_embedding'', PTensor [1001, 2001, 10])]\<rparr>,
            Inr \<lparr>embeddings = [PTensor [60, 60, 72, 105, 62, 62], PTensor [1001, 2001, 10]],
                  position = 0, num_user_prompts = 0, open_user_prompt = True, use_cache = False\<rparr>)"
    by code_simp
  have c: "set [''role'', ''image''] \<subseteq>
           set (entry_keys \<lparr>role = ''user'', items = [(''image'', PImage 1), (''text'', PStr ''q'')]\<rparr>)"
    by (simp add: entry_keys_def)
  have d: "map_of (template sample_image_history) ''first'' = Some (MESSAGE @ ''/'')" by code_simp
  have f: "role \<lparr>role = ''user'', items = [(''image'', PImage 1), (''text'', PStr ''q'')]\<rparr> = ''user''"
    by simp
  have g: "user_texts sample_image_history [\<lparr>role = ''system'', items = [(''text'', PStr ''Hi'')]\<rparr>] +
           user_text_keys sample_image_history
             \<lparr>role = ''user'', items = [(''image'', PImage 1), (''text'', PStr ''q'')]\<rparr>
             [''role'', ''image''] = 0"
    by (simp add: user_texts_def user_text_keys_def)
  show ?thesis
    by (rule first_template_until_first_user_text
        [OF a b c, THEN conjunct2, THEN conjunct1, rule_format, OF d f g])
qed

section \<open>The sample history: full pass, missing roles, reset\<close>

text \<open>
  The template of a role is looked up for a segment, inside the loop over the keys: an
  entry whose role has no template and that has no content is passed over.
\<close>

lemma role_without_content_is_ignored:
  "role (entries sample_roleonly_history ! 1) = ''assistant'' \<and>
   map_of (template sample_roleonly_history) ''assistant'' = None \<and>
   snd (embed_chat True sample_roleonly_history) = Inr ([60, 60, 72, 105, 62, 62], 0)"
  by code_simp

text \<open>The sample history with an \<open>assistant\<close> entry that has a text fails.\<close>

lemma assistant_entry_fails:
  "isl (snd (embed_chat True sample_assistant_history))"
proof -
  define e where "e = \<lparr>role = ''assistant'', items = [(''text'', PStr ''hi'')]\<rparr>"
  have es: "entries sample_assistant_history =
      [\<lparr>role = ''system'', items = [(''text'', PStr ''Hi''),
          (''text_embedding'', PTensor [60, 60, 72, 105, 62, 62])]\<rparr>,
       \<lparr>role = ''assistant'', items = [(''text'', PStr ''hi'')]\<rparr>]"
    by code_simp
  have a: "e \<in> set (entries sample_assistant_history)" by (simp add: es e_def)
  have b: "''text'' \<in> set (entry_keys e)" by (simp add: e_def entry_keys_def)
  have "map fst (embedding_functions sample_assistant_history) = [''text'', ''dict'', ''image'']"
    by code_simp
  then have "''text'' \<in> set (map fst (embedding_functions sample_assistant_history))" by simp
  then have c: "map_of (embedding_functions sample_assistant_history) ''text'' \<noteq> None"
    by (simp only: map_of_eq_None_iff set_map simp_thms)
  have d: "entry_get e ''text'' \<noteq> Some PNone" by (simp add: e_def entry_get_def)
  have "map_of (template sample_assistant_history) ''assistant'' = None" by code_simp
  then have f: "map_of (template sample_assistant_history) (role e) = None" by (simp add: e_def)
  have g: "\<not> (map_of (template sample_assistant_history) ''first'' \<noteq> None \<and> role e = ''user'')"
    by (simp add: e_def)
  from a b c d f g show ?thesis by (rule missing_role_template_fails)
qed

text \<open>
  Witness of C8: a new prompt on a history that holds a cached embedding.
\<close>

theorem set_system_prompt_resets_witness:
  "snd (set_system_prompt ''Yo'' sample_cached_history) = Inr () \<and>
   system_prompt (fst (set_system_prompt ''Yo'' sample_cached_history)) = Inr ''Yo'' \<and>
   entries (fst (set_system_prompt ''Yo'' sample_cached_history)) =
     [\<lparr>role = ''system'', items = [(''text'', PStr ''Yo'')]\<rparr>] \<and>
   snd (embed_chat True (fst (set_system_prompt ''Yo'' sample_cached_history))) =
     Inr ([60, 60, 89, 111, 62, 62], 0)"
proof -
  have a: "map_of (template sample_cached_history) ''system'' = Some (''<<'' @ MESSAGE @ ''>>'')"
    by code_simp
  have "map fst (embedding_functions sample_cached_history) = [''text'', ''dict'', ''image'']"
    by code_simp
  then have "''role'' \<notin> set (map fst (embedding_functions sample_cached_history))" by simp
  then have b: "map_of (embedding_functions sample_cached_history) ''role'' = None"
    by (simp only: map_of_eq_None_iff set_map simp_thms)
  have c: "embed sample_cached_history (PStr ''Yo'') (Some ''text'') (Some (''<<'' @ MESSAGE @ ''>>'')) =
           Inr [60, 60, 89, 111, 62, 62]"
    by code_simp
  from set_system_prompt_resets [OF a b c, of True] show ?thesis by simp
qed

text \<open>
  Witness of C9: the assembly fails on the \<open>assistant\<close> entry, and the cached embedding of
  the system entry is still there.
\<close>

theorem failed_assembly_keeps_cached_witness:
  "snd (embed_chat True sample_assistant_history) = Inl (AttributeError ''template_name'') \<and>
   entry_get (entries (fst (embed_chat True sample_assistant_history)) ! 0) ''text_embedding'' =
     Some (PTensor [60, 60, 72, 105, 62, 62])"
proof -
  have s: "snd (embed_chat True sample_assistant_history) = Inl (AttributeError ''template_name'')"
    by code_simp
  then have a: "embed_chat True sample_assistant_history =
      (fst (embed_chat True sample_assistant_history), Inl (AttributeError ''template_name''))"
    by (simp add: prod_eq_iff)
  have l: "0 < length (entries sample_assistant_history)" by code_simp
  have c: "entry_get (entries sample_assistant_history ! 0) (''text'' @ ''_embedding'') =
           Some (PTensor [60, 60, 72, 105, 62, 62])"
    by code_simp
  from failed_assembly_keeps_cached [OF a, THEN conjunct2, rule_format, OF l c] s
  show ?thesis by simp
qed


section \<open>The sample history: a pass without the cache, the error for a missing role\<close>

text \<open>
  Line 276, for a role without template: the error is the \<open>RuntimeError\<close> that names the
  role only if the object has the attribute \<open>template_name\<close>, and the constructor does not
  set it.
\<close>

lemma role_template_missing_error:
  assumes "map_of (template h) (role e) = None"
    and "\<not> (map_of (template h) ''first'' \<noteq> None \<and> role e = ''user'' \<and> num_user_prompts st = 0)"
  shows "role_template h e st =
           (case template_name h of
              None \<Rightarrow> Inl (AttributeError ''template_name'')
            | Some n \<Rightarrow> Inl (RuntimeError n (role e)))"
  using assms by (auto simp: role_template_def split: option.splits)

lemma register_embedding_template_name [simp]:
  "template_name (register_embedding ty f h) = template_name h"
  by (simp add: register_embedding_def)

lemma reset_template_name [simp]: "template_name (fst (reset b h)) = template_name h"
  by (auto simp: reset_def add_entry_def Let_def split: option.splits sum.splits prod.splits)

lemma init_template_name: "init x t sp = Inr h \<Longrightarrow> template_name h = None"
proof -
  assume a: "init x t sp = Inr h"
  then obtain h3 u where r: "reset True h3 = (h, u)" and n: "template_name h3 = None"
    by (auto simp: init_def Let_def split: sum.splits prod.splits)
  have "template_name (fst (reset True h3)) = template_name h3" by simp
  with r n show ?thesis by simp
qed

lemma add_entry_fields [simp]:
  "embedding_functions (fst (add_entry r i kw h)) = embedding_functions h"
  "ext (fst (add_entry r i kw h)) = ext h"
  "template (fst (add_entry r i kw h)) = template h"
  by (simp_all add: add_entry_def split: sum.splits)

lemma embed_chat_fields [simp]:
  "embedding_functions (fst (embed_chat uc h)) = embedding_functions h"
  "ext (fst (embed_chat uc h)) = ext h"
  "template (fst (embed_chat uc h)) = template h"
  by (simp_all add: embed_chat_def split: prod.splits sum.splits)

lemma sample_history_text:
  "map_of (embedding_functions sample_history) ''text'' = Some \<lparr>func = EmbedText, uses_template = True\<rparr>"
  by (simp add: sample_history_def init_def sample_template_def register_embedding_def reset_def
      add_entry_def create_entry_def Let_def)

lemma sample_history_ext: "ext sample_history = sample_ext"
  by (simp add: sample_history_def init_def sample_template_def register_embedding_def reset_def
      add_entry_def create_entry_def Let_def)

lemma sample_embed_text_total:
  "\<not> isl (embed sample_turn_history (PStr s) (Some ''text'') (Some rt))"
proof -
  have "map_of (embedding_functions sample_turn_history) ''text'' =
          Some \<lparr>func = EmbedText, uses_template = True\<rparr>"
    by (simp add: sample_turn_history_def sample_cached_history_def sample_history_text)
  moreover have "ext sample_turn_history = sample_ext"
    by (simp add: sample_turn_history_def sample_cached_history_def sample_history_ext)
  ultimately have "embed sample_turn_history (PStr s) (Some ''text'') (Some rt) =
      embed_text sample_ext (PStr s) (Some rt) False"
    by (subst embed.simps) simp
  then show ?thesis by (simp add: embed_text_def sample_ext_def Let_def)
qed

text \<open>
  Claim C4 as stated fails: on a history without entries an assembly without the cache
  returns nothing, \<open>np.concatenate\<close> raises on the empty list at line 309.
\<close>

theorem nothing_to_emit_raises:
  "entries sample_empty_history = [] \<and>
   snd (embed_chat False sample_empty_history) =
     Inl (ValueError ''need at least one array to concatenate'')"
  by code_simp

lemma sample_turn_entries:
  "entries sample_turn_history =
     [\<lparr>role = ''system'', items = [(''text'', PStr ''Hi''),
         (''text_embedding'', PTensor [60, 60, 72, 105, 62, 62])]\<rparr>,
      \<lparr>role = ''bot'', items = [(''text'', PStr ''ok'')]\<rparr>,
      \<lparr>role = ''user'', items = [(''text'', PStr ''q'')]\<rparr>]"
  by code_simp

lemma sample_turn_segments:
  "list_all (\<lambda>e. segments sample_turn_history e = [''text'']) (entries sample_turn_history)"
  by code_simp

lemma sample_turn_templates:
  "list_all (\<lambda>e. map_of (template sample_turn_history) (role e) \<noteq> None) (entries sample_turn_history)"
  by code_simp

lemma sample_turn_arrays:
  "list_all (\<lambda>e. list_all is_tensor (cached e ''text'')) (entries sample_turn_history)"
  by code_simp

lemma sample_turn_texts:
  "list_all (\<lambda>e. is_str (the (entry_get e ''text''))) (entries sample_turn_history)"
  by code_simp

text \<open>
  Witness of C4, amended: a cached system entry, then a bot entry and a user entry without
  cached embeddings; all three are emitted, the two missing embeddings are stored.
\<close>

theorem no_cache_returns_all_segments_witness:
  "snd (embed_chat False sample_turn_history) =
     Inr ([60, 60, 72, 105, 62, 62, 32, 111, 107, 113, 47], 0) \<and>
   entries (fst (embed_chat False sample_turn_history)) =
     [\<lparr>role = ''system'', items = [(''text'', PStr ''Hi''),
         (''text_embedding'', PTensor [60, 60, 72, 105, 62, 62])]\<rparr>,
      \<lparr>role = ''bot'', items = [(''text'', PStr ''ok''),
         (''text_embedding'', PTensor [32, 111, 107])]\<rparr>,
      \<lparr>role = ''user'', items = [(''text'', PStr ''q''),
         (''text_embedding'', PTensor [113, 47])]\<rparr>] \<and>
   (\<exists>h' t. embed_chat False sample_turn_history = (h', Inr (t, 0)) \<and>
      np_concatenate (emitted sample_turn_history (entries sample_turn_history) (entries h')) = Inr t)"
proof -
  have sg: "\<forall>e\<in>set (entries sample_turn_history). segments sample_turn_history e = [''text'']"
    using sample_turn_segments by (simp only: list_all_iff)
  have a: "\<exists>e\<in>set (entries sample_turn_history). segments sample_turn_history e \<noteq> []"
    using sg by (simp add: sample_turn_entries)
  have b: "\<forall>e\<in>set (entries sample_turn_history). segments sample_turn_history e \<noteq> [] \<longrightarrow>
             map_of (template sample_turn_history) (role e) \<noteq> None"
    using sample_turn_templates by (simp only: list_all_iff) blast
  have c: "\<forall>e\<in>set (entries sample_turn_history). \<forall>k\<in>set (segments sample_turn_history e).
             \<forall>c\<in>set (cached e k). is_tensor c"
  proof (intro ballI)
    fix e k c
    assume e: "e \<in> set (entries sample_turn_history)"
      and k: "k \<in> set (segments sample_turn_history e)" and c: "c \<in> set (cached e k)"
    from sg e k have "k = ''text''" by simp
    moreover from sample_turn_arrays e have "list_all is_tensor (cached e ''text'')"
      by (auto simp: list_all_iff)
    ultimately show "is_tensor c" using c by (simp add: list_all_iff)
  qed
  have d: "\<forall>e\<in>set (entries sample_turn_history). \<forall>k\<in>set (segments sample_turn_history e).
             entry_get e (k @ ''_embedding'') = None \<longrightarrow>
             (\<forall>v rt. entry_get e k = Some v \<longrightarrow>
                \<not> isl (embed sample_turn_history v (Some k) (Some rt)))"
  proof (intro ballI allI impI)
    fix e k v rt
    assume e: "e \<in> set (entries sample_turn_history)"
      and k: "k \<in> set (segments sample_turn_history e)" and v: "entry_get e k = Some v"
    from sg e k have kt: "k = ''text''" by simp
    from sample_turn_texts e have "is_str (the (entry_get e ''text''))"
      by (auto simp: list_all_iff)
    with v kt obtain s where "v = PStr s" by (cases v) auto
    with kt show "\<not> isl (embed sample_turn_history v (Some k) (Some rt))"
      by (simp add: sample_embed_text_total)
  qed
  have s: "snd (embed_chat False sample_turn_history) =
     Inr ([60, 60, 72, 105, 62, 62, 32, 111, 107, 113, 47], 0)"
    by code_simp
  have es: "entries (fst (embed_chat False sample_turn_history)) =
     [\<lparr>role = ''system'', items = [(''text'', PStr ''Hi''),
         (''text_embedding'', PTensor [60, 60, 72, 105, 62, 62])]\<rparr>,
      \<lparr>role = ''bot'', items = [(''text'', PStr ''ok''),
         (''text_embedding'', PTensor [32, 111, 107])]\<rparr>,
      \<lparr>role = ''user'', items = [(''text'', PStr ''q''),
         (''text_embedding'', PTensor [113, 47])]\<rparr>]"
    by code_simp
  from no_cache_returns_all_segments [OF a b c d]
  have "\<exists>h' t. embed_chat False sample_turn_history = (h', Inr (t, 0)) \<and>
      np_concatenate (emitted sample_turn_history (entries sample_turn_history) (entries h')) = Inr t"
    by blast
  with s es show ?thesis by blast
qed

text \<open>
  Claim C5. The history that the constructor returns, after a first assembly and
  \<open>add_entry('assistant', 'hi')\<close>, with a template set that has no \<open>assistant\<close> role: the
  assembly reaches line 275 for the text of the entry and fails, but the message of the
  \<open>RuntimeError\<close> of line 276 reads \<open>self.template_name\<close>, which no method assigns, and the
  error that reaches the caller is an \<open>AttributeError\<close>, not an error that names the role.
\<close>

theorem missing_role_raises_attribute_error:
  "role (entries sample_assistant_history ! 1) = ''assistant'' \<and>
   entry_get (entries sample_assistant_history ! 1) ''text'' = Some (PStr ''hi'') \<and>
   map_of (template sample_assistant_history) ''assistant'' = None \<and>
   template_name sample_assistant_history = None \<and>
   snd (embed_chat True sample_assistant_history) = Inl (AttributeError ''template_name'')"
  by code_simp

end
